theory Spec2Isabelle
  imports Complex_Main
begin

section \<open>Numeric cells: IEEE 754 values\<close>

text \<open>
  The VM keeps every number in a C++ \<^verbatim>\<open>double\<close>; the compiler reads float literals
  into a C++ \<^verbatim>\<open>float\<close>. Both are modelled by the values of a binary IEEE 754 format:
  a finite number is the rational it denotes (\<open>Finite 0\<close> is \<open>+0.0\<close>), and the negative
  zero, the two infinities and NaN are constructors of their own. An arithmetic operation
  computes the exact rational result and rounds it to the nearest value of the format,
  ties to even.
\<close>

datatype fp = Finite rat | NegZero | Infinity bool | NaN

type_synonym double = fp
type_synonym float = fp

definition pow2 :: "int \<Rightarrow> rat" where
  "pow2 k = (if 0 \<le> k then of_int (2 ^ nat k) else 1 / of_int (2 ^ nat (- k)))"

function bitlen :: "int \<Rightarrow> int" where
  "bitlen n = (if n \<le> 0 then 0 else 1 + bitlen (n div 2))"
  by auto

termination bitlen
  by (relation "measure nat") auto

declare bitlen.simps [simp del]

text \<open>\<open>ilog2 a\<close> is the exponent \<open>e\<close> with \<open>2^e \<le> a < 2^(e+1)\<close>, for \<open>a > 0\<close>.\<close>

definition ilog2 :: "rat \<Rightarrow> int" where
  "ilog2 a =
     (let (n, d) = quotient_of a;
          k = bitlen n - bitlen d
      in if pow2 k \<le> a then k else k - 1)"

definition round_half_even :: "rat \<Rightarrow> int" where
  "round_half_even x =
     (let f = \<lfloor>x\<rfloor>; r = x - of_int f
      in if r < 1 / 2 then f
         else if 1 / 2 < r then f + 1
         else if even f then f else f + 1)"

text \<open>
  Rounding to a format with \<open>p\<close> bits of precision and exponents \<open>emin .. emax\<close>:
  the unit in the last place is \<open>2^(e - p + 1)\<close> for the exponent \<open>e\<close> of the number
  (\<open>emin\<close> in the subnormal range); a result of \<open>2^(emax + 1)\<close> or more overflows.
\<close>

definition round_to :: "nat \<Rightarrow> int \<Rightarrow> int \<Rightarrow> rat \<Rightarrow> fp" where
  "round_to p emin emax q =
     (if q = 0 then Finite 0
      else
        let a = \<bar>q\<bar>;
            e = max (ilog2 a) emin;
            ulp = pow2 (e - int p + 1);
            m = round_half_even (a / ulp);
            r = of_int m * ulp
        in if pow2 (emax + 1) \<le> r then Infinity (q < 0)
           else if m = 0 then (if q < 0 then NegZero else Finite 0)
           else Finite (if q < 0 then - r else r))"

definition round_double :: "rat \<Rightarrow> double" where
  "round_double = round_to 53 (- 1022) 1023"

definition round_float :: "rat \<Rightarrow> float" where
  "round_float = round_to 24 (- 126) 127"

fun is_zero :: "fp \<Rightarrow> bool" where
  "is_zero (Finite q) = (q = 0)"
| "is_zero NegZero = True"
| "is_zero _ = False"

fun is_inf :: "fp \<Rightarrow> bool" where
  "is_inf (Infinity s) = True"
| "is_inf _ = False"

fun sign_bit :: "fp \<Rightarrow> bool" where
  "sign_bit (Finite q) = (q < 0)"
| "sign_bit NegZero = True"
| "sign_bit (Infinity s) = s"
| "sign_bit NaN = False"

fun fp_value :: "fp \<Rightarrow> rat" where
  "fp_value (Finite q) = q"
| "fp_value _ = 0"

definition signed_zero :: "bool \<Rightarrow> fp" where
  "signed_zero s = (if s then NegZero else Finite 0)"

fun fneg :: "fp \<Rightarrow> fp" where
  "fneg (Finite q) = (if q = 0 then NegZero else Finite (- q))"
| "fneg NegZero = Finite 0"
| "fneg (Infinity s) = Infinity (\<not> s)"
| "fneg NaN = NaN"

text \<open>C++ \<^verbatim>\<open>a + b\<close> on doubles.\<close>

definition fadd :: "double \<Rightarrow> double \<Rightarrow> double" where
  "fadd a b =
     (if a = NaN \<or> b = NaN then NaN
      else if is_inf a \<and> is_inf b then (if sign_bit a = sign_bit b then a else NaN)
      else if is_inf a then a
      else if is_inf b then b
      else if a = NegZero \<and> b = NegZero then NegZero
      else round_double (fp_value a + fp_value b))"

text \<open>C++ \<^verbatim>\<open>a - b\<close> on doubles.\<close>

definition fsub :: "double \<Rightarrow> double \<Rightarrow> double" where
  "fsub a b = fadd a (fneg b)"

text \<open>C++ \<^verbatim>\<open>a * b\<close> on doubles.\<close>

definition fmul :: "double \<Rightarrow> double \<Rightarrow> double" where
  "fmul a b =
     (let s = (sign_bit a \<noteq> sign_bit b)
      in if a = NaN \<or> b = NaN then NaN
         else if is_inf a \<or> is_inf b then (if is_zero a \<or> is_zero b then NaN else Infinity s)
         else if is_zero a \<or> is_zero b then signed_zero s
         else round_double (fp_value a * fp_value b))"

text \<open>C++ \<^verbatim>\<open>a / b\<close> on doubles.\<close>

definition fdiv :: "double \<Rightarrow> double \<Rightarrow> double" where
  "fdiv a b =
     (let s = (sign_bit a \<noteq> sign_bit b)
      in if a = NaN \<or> b = NaN then NaN
         else if is_inf a then (if is_inf b then NaN else Infinity s)
         else if is_inf b then signed_zero s
         else if is_zero b then (if is_zero a then NaN else Infinity s)
         else if is_zero a then signed_zero s
         else round_double (fp_value a / fp_value b))"

text \<open>
  The comparisons of C++: every comparison with NaN is false except \<^verbatim>\<open>!=\<close>, and the two
  zeros are equal.
\<close>

fun fp_rank :: "fp \<Rightarrow> int" where
  "fp_rank (Infinity s) = (if s then - 1 else 1)"
| "fp_rank _ = 0"

definition feq :: "fp \<Rightarrow> fp \<Rightarrow> bool" where
  "feq a b = (a \<noteq> NaN \<and> b \<noteq> NaN \<and> fp_rank a = fp_rank b \<and> fp_value a = fp_value b)"

definition fless :: "fp \<Rightarrow> fp \<Rightarrow> bool" where
  "fless a b =
     (a \<noteq> NaN \<and> b \<noteq> NaN \<and>
      (fp_rank a < fp_rank b \<or> (fp_rank a = fp_rank b \<and> fp_value a < fp_value b)))"

definition fle :: "fp \<Rightarrow> fp \<Rightarrow> bool" where
  "fle a b = (fless a b \<or> feq a b)"

text \<open>\<^verbatim>\<open>static_cast<double>(int)\<close> is exact on 32-bit integers, and so is the widening
  \<^verbatim>\<open>static_cast<double>(float)\<close>.\<close>

definition int_to_double :: "int \<Rightarrow> double" where
  "int_to_double n = Finite (of_int n)"

definition float_to_double :: "float \<Rightarrow> double" where
  "float_to_double f = f"

definition INT_MIN :: int where
  "INT_MIN = - 2147483648"

definition INT_MAX :: int where
  "INT_MAX = 2147483647"

text \<open>
  \<^verbatim>\<open>static_cast<int>(double)\<close> truncates towards zero; where the truncated value does not
  fit an \<^verbatim>\<open>int\<close> (or the value is an infinity or NaN) the behaviour is undefined: \<open>None\<close>.
\<close>

fun double_to_int :: "double \<Rightarrow> int option" where
  "double_to_int (Finite q) =
     (let t = (if q < 0 then - \<lfloor>- q\<rfloor> else \<lfloor>q\<rfloor>)
      in if INT_MIN \<le> t \<and> t \<le> INT_MAX then Some t else None)"
| "double_to_int NegZero = Some 0"
| "double_to_int _ = None"

section \<open>Library conversions used by the compiler\<close>

datatype exn =
    std_invalid_argument
  | std_out_of_range
  | undefined_behaviour
  | outside_model

definition is_digit :: "char \<Rightarrow> bool" where
  "is_digit c = (c \<in> set ''0123456789'')"

definition is_space :: "char \<Rightarrow> bool" where
  "is_space c = (c \<in> {CHR '' '', CHR 0x09, CHR 0x0A, CHR 0x0B, CHR 0x0C, CHR 0x0D})"

definition digit_val :: "char \<Rightarrow> nat" where
  "digit_val c = of_char c - 48"

definition digits_val :: "string \<Rightarrow> nat" where
  "digits_val ds = foldl (\<lambda>a c. 10 * a + digit_val c) 0 ds"

text \<open>
  \<^verbatim>\<open>std::stoi\<close>: skips white space, reads an optional sign and the longest run of decimal
  digits; throws \<^verbatim>\<open>std::invalid_argument\<close> when there is no digit and
  \<^verbatim>\<open>std::out_of_range\<close> when the number does not fit an \<^verbatim>\<open>int\<close>.
\<close>

definition stoi :: "string \<Rightarrow> exn + int" where
  "stoi s =
     (let s1 = dropWhile is_space s;
          neg = (s1 \<noteq> [] \<and> hd s1 = CHR ''-'');
          s2 = (if s1 \<noteq> [] \<and> (hd s1 = CHR ''-'' \<or> hd s1 = CHR ''+'') then tl s1 else s1);
          ds = takeWhile is_digit s2
      in if ds = [] then Inl std_invalid_argument
         else
           let v = (if neg then - int (digits_val ds) else int (digits_val ds))
           in if v < INT_MIN \<or> INT_MAX < v then Inl std_out_of_range else Inr v)"

text \<open>
  \<^verbatim>\<open>std::stof\<close> on the float literals the lexer produces: decimal digits with at most one
  decimal point and at least one digit. The decimal number is rounded to the nearest
  \<^verbatim>\<open>float\<close>. \<^verbatim>\<open>strtof\<close> reports a range error, and \<^verbatim>\<open>std::stof\<close> throws
  \<^verbatim>\<open>std::out_of_range\<close>, when the result is beyond the range of \<^verbatim>\<open>float\<close> and when the
  number underflows: rounded to 24 bits it is still below the smallest normal \<^verbatim>\<open>float\<close>
  \<open>2^-126\<close>, that is the number is below \<open>2^-126 - 2^-151\<close>, and the \<^verbatim>\<open>float\<close> returned is
  not exact. A subnormal that the literal denotes exactly is returned. The other spellings
  \<^verbatim>\<open>strtof\<close> accepts (signs, exponents, hexadecimal, inf, nan) are outside this model.
\<close>

definition int_part :: "string \<Rightarrow> string" where
  "int_part s = takeWhile is_digit s"

definition frac_part :: "string \<Rightarrow> string" where
  "frac_part s =
     (let r = dropWhile is_digit s
      in if r \<noteq> [] \<and> hd r = CHR ''.'' then takeWhile is_digit (tl r) else [])"

definition after_number :: "string \<Rightarrow> string" where
  "after_number s =
     (let r = dropWhile is_digit s
      in if r \<noteq> [] \<and> hd r = CHR ''.'' then dropWhile is_digit (tl r) else r)"

text \<open>The number a decimal literal denotes, exactly.\<close>

definition decimal_value :: "string \<Rightarrow> rat" where
  "decimal_value s =
     of_nat (digits_val (int_part s @ frac_part s)) / 10 ^ length (frac_part s)"

definition stof :: "string \<Rightarrow> exn + float" where
  "stof s =
     (if after_number s \<noteq> [] then Inl outside_model
      else if int_part s @ frac_part s = [] then Inl std_invalid_argument
      else
        let q = decimal_value s;
            r = round_float q
        in if is_inf r then Inl std_out_of_range
           else if q < pow2 (- 126) - pow2 (- 151) \<and> fp_value r \<noteq> q then Inl std_out_of_range
           else Inr r)"

section \<open>Tokens and syntax trees\<close>

text \<open>
  The three enumerations of the source share names (\<^verbatim>\<open>TokenType::AND\<close> and
  \<^verbatim>\<open>Instruction::AND\<close>, \<^verbatim>\<open>TokenType::STRING_LITERAL\<close> and
  \<^verbatim>\<open>ASTNode::Type::STRING_LITERAL\<close>); the constructors of \<open>TokenType\<close> carry the
  prefix \<open>T_\<close>.
\<close>

datatype TokenType =
    T_EOF_TOKEN
  | T_INT_LITERAL | T_FLOAT_LITERAL | T_STRING_LITERAL | T_TRUE | T_FALSE
  | T_PLUS | T_MINUS | T_STAR | T_SLASH
  | T_GREATER | T_LESS | T_GREATER_EQUAL | T_LESS_EQUAL | T_EQUAL_EQUAL | T_BANG_EQUAL
  | T_BANG | T_AND | T_OR
  | T_LPAREN | T_RPAREN
  | T_VAR | T_PRINT
  | T_IDENTIFIER
  | T_ASSIGN
  | T_SEMICOLON
  | T_IF | T_ELSE | T_LBRACE | T_RBRACE

record Token =
  tok_type :: TokenType
  tok_value :: string
  line :: int
  column :: int

datatype Type =
    INTEGER
  | FLOAT
  | UNKNOWN
  | IDENTIFIER_EXPRESSION
  | ASSIGNMENT_EXPRESSION
  | VARIABLE_DECLARATION
  | IF_STATEMENT
  | BLOCK_STATEMENT
  | PRINT_STATEMENT
  | STRING_LITERAL
  | BOOLEAN_LITERAL
  | UNARY_EXPRESSION

text \<open>
  The classes below \<^verbatim>\<open>Expression\<close> and the other classes below \<^verbatim>\<open>ASTNode\<close>. An
  expression is a node (\<open>ExpressionNode\<close>); \<open>OtherNode\<close> stands for an object of any
  class derived from \<^verbatim>\<open>ASTNode\<close> that \<^verbatim>\<open>compileNode\<close> does not know. An optional child
  (the initializer, the else branch) is a pointer that may be null.
\<close>

datatype Expression =
    UnaryExpression Token Expression
  | Literal Token
  | BooleanLiteral Token
  | IdentifierExpression Token
  | AssignmentExpression Token Expression
  | BinaryExpression Expression Token Expression

datatype ASTNode =
    ExpressionNode Expression
  | VariableDeclaration Token "Expression option"
  | IfStatement Expression ASTNode "ASTNode option"
  | BlockStatement "ASTNode list"
  | PrintStatement Expression
  | OtherNode

text \<open>The virtual method \<^verbatim>\<open>getType\<close> of the expression classes.\<close>

fun getType :: "Expression \<Rightarrow> Type" where
  "getType (UnaryExpression op right) = getType right"
| "getType (Literal token) =
     (if tok_type token = T_INT_LITERAL then INTEGER
      else if tok_type token = T_FLOAT_LITERAL then FLOAT
      else if tok_type token = T_STRING_LITERAL then STRING_LITERAL
      else UNKNOWN)"
| "getType (BooleanLiteral token) = BOOLEAN_LITERAL"
| "getType (IdentifierExpression identifier) = IDENTIFIER_EXPRESSION"
| "getType (AssignmentExpression identifier v) = getType v"
| "getType (BinaryExpression left op right) =
     (let leftType = getType left; rightType = getType right
      in if tok_type op = T_PLUS \<and> leftType = STRING_LITERAL \<and> rightType = STRING_LITERAL
         then STRING_LITERAL
         else if tok_type op = T_PLUS \<and>
                 ((leftType = STRING_LITERAL \<and> (rightType = INTEGER \<or> rightType = FLOAT)) \<or>
                  ((leftType = INTEGER \<or> leftType = FLOAT) \<and> rightType = STRING_LITERAL))
         then UNKNOWN
         else if leftType = UNKNOWN \<or> rightType = UNKNOWN then UNKNOWN
         else if leftType = FLOAT \<or> rightType = FLOAT then FLOAT
         else if leftType = INTEGER \<or> rightType = INTEGER then INTEGER
         else if leftType = BOOLEAN_LITERAL \<or> rightType = BOOLEAN_LITERAL then BOOLEAN_LITERAL
         else UNKNOWN)"

section \<open>The diagnostic channel\<close>

text \<open>
  What the source writes to \<^verbatim>\<open>std::cerr\<close>, one entry per line, tagged with the prefix
  of the line (\<^verbatim>\<open>Compiler Error:\<close>, \<^verbatim>\<open>Error:\<close> and \<^verbatim>\<open>Warning:\<close> of the symbol
  table, \<^verbatim>\<open>Compiler Warning:\<close>, \<^verbatim>\<open>VM Error:\<close>) and holding the fixed part of the message.
\<close>

datatype diag =
    CompilerError string
  | InternalCompilerError string
  | SymbolTableError string
  | SymbolTableWarning string
  | CompilerWarning string
  | VMError string

fun is_error :: "diag \<Rightarrow> bool" where
  "is_error (CompilerError m) = True"
| "is_error (InternalCompilerError m) = True"
| "is_error (SymbolTableError m) = True"
| "is_error (VMError m) = True"
| "is_error (SymbolTableWarning m) = False"
| "is_error (CompilerWarning m) = False"

definition has_error :: "diag list \<Rightarrow> bool" where
  "has_error ds = list_ex is_error ds"

section \<open>Symbol table\<close>

record Symbol =
  name :: string
  type :: Type
  address :: int

text \<open>
  \<^verbatim>\<open>scopes\<close> is a vector of hash maps used as a stack; the head of the list is the back
  of the vector, the innermost scope. \<^verbatim>\<open>next_address\<close> is an \<^verbatim>\<open>int\<close>, modelled
  unbounded: the model covers compilations with fewer than \<open>2^31\<close> declarations.
\<close>

record SymbolTable =
  scopes :: "(string \<rightharpoonup> Symbol) list"
  next_address :: int

definition enterScope :: "SymbolTable \<Rightarrow> SymbolTable" where
  "enterScope t = t\<lparr>scopes := Map.empty # scopes t\<rparr>"

definition SymbolTable_init :: SymbolTable where
  "SymbolTable_init = enterScope \<lparr>scopes = [], next_address = 0\<rparr>"

definition exitScope :: "SymbolTable \<Rightarrow> SymbolTable \<times> diag list" where
  "exitScope t =
     (if 1 < length (scopes t) then (t\<lparr>scopes := tl (scopes t)\<rparr>, [])
      else (t, [SymbolTableWarning ''Attempted to exit global scope.'']))"

definition addSymbol :: "string \<Rightarrow> Type \<Rightarrow> SymbolTable \<Rightarrow> bool \<times> SymbolTable \<times> diag list" where
  "addSymbol nm ty t =
     (if scopes t = [] then (False, t, [SymbolTableError ''No active scope to add symbol to.''])
      else if hd (scopes t) nm \<noteq> None
      then (False, t, [SymbolTableError ''Symbol already exists in the current scope.''])
      else (True,
            t\<lparr>scopes := (hd (scopes t))(nm \<mapsto> \<lparr>name = nm, type = ty, address = next_address t\<rparr>)
                          # tl (scopes t),
              next_address := next_address t + 1\<rparr>,
            []))"

fun lookup_scopes :: "string \<Rightarrow> (string \<rightharpoonup> Symbol) list \<Rightarrow> Symbol option" where
  "lookup_scopes nm [] = None"
| "lookup_scopes nm (scope # outer) =
     (case scope nm of Some symbol \<Rightarrow> Some symbol | None \<Rightarrow> lookup_scopes nm outer)"

definition lookupSymbol :: "string \<Rightarrow> SymbolTable \<Rightarrow> Symbol option" where
  "lookupSymbol nm t = lookup_scopes nm (scopes t)"

text \<open>
  \<^verbatim>\<open>lookupSymbol\<close> returns a pointer into the table, and the compiler writes the type of
  a symbol through it (\<^verbatim>\<open>symbol->type = assignedType\<close>): the write goes to the symbol the
  lookup finds.
\<close>

fun set_type_scopes :: "string \<Rightarrow> Type \<Rightarrow> (string \<rightharpoonup> Symbol) list \<Rightarrow> (string \<rightharpoonup> Symbol) list" where
  "set_type_scopes nm ty [] = []"
| "set_type_scopes nm ty (scope # outer) =
     (case scope nm of
        Some symbol \<Rightarrow> scope(nm \<mapsto> symbol\<lparr>type := ty\<rparr>) # outer
      | None \<Rightarrow> scope # set_type_scopes nm ty outer)"

definition setSymbolType :: "string \<Rightarrow> Type \<Rightarrow> SymbolTable \<Rightarrow> SymbolTable" where
  "setSymbolType nm ty t = t\<lparr>scopes := set_type_scopes nm ty (scopes t)\<rparr>"

section \<open>Bytecode\<close>

datatype Instruction =
    PUSH_INT | PUSH_FLOAT | ADD | SUB | MUL | DIV | NEGATE | POP | STORE | LOAD | HALT
  | JUMP_IF_FALSE | JUMP | JUMP_IF_TRUE
  | GREATER | LESS | GREATER_EQUAL | LESS_EQUAL | EQUAL_EQUAL | BANG_EQUAL | NOT | AND | OR
  | PUSH_STRING | CONCAT_STRING | PRINT_VALUE | PRINT_STRING

record Bytecode =
  instruction :: Instruction
  operand :: double

text \<open>The three constructors of \<^verbatim>\<open>struct Bytecode\<close>: no operand, an \<^verbatim>\<open>int\<close>, a \<^verbatim>\<open>float\<close>.\<close>

definition Bytecode0 :: "Instruction \<Rightarrow> Bytecode" where
  "Bytecode0 i = \<lparr>instruction = i, operand = Finite 0\<rparr>"

definition BytecodeI :: "Instruction \<Rightarrow> int \<Rightarrow> Bytecode" where
  "BytecodeI i intOperand = \<lparr>instruction = i, operand = int_to_double intOperand\<rparr>"

definition BytecodeF :: "Instruction \<Rightarrow> float \<Rightarrow> Bytecode" where
  "BytecodeF i floatOperand = \<lparr>instruction = i, operand = float_to_double floatOperand\<rparr>"

section \<open>Compiler\<close>

text \<open>
  The members of \<^verbatim>\<open>class Compiler\<close>, and the lines it and its symbol table write to
  \<^verbatim>\<open>std::cerr\<close>.
\<close>

record Compiler =
  bytecode :: "Bytecode list"
  symbolTable :: SymbolTable
  string_literals :: "string list"
  cerr :: "diag list"

definition Compiler_init :: Compiler where
  "Compiler_init =
     \<lparr>bytecode = [], symbolTable = SymbolTable_init, string_literals = [], cerr = []\<rparr>"

text \<open>\<^verbatim>\<open>bytecode.push_back(b)\<close>.\<close>

definition emit :: "Bytecode \<Rightarrow> Compiler \<Rightarrow> Compiler" where
  "emit b c = c\<lparr>bytecode := bytecode c @ [b]\<rparr>"

text \<open>A line on \<^verbatim>\<open>std::cerr\<close> followed by \<^verbatim>\<open>bytecode.clear()\<close>.\<close>

definition compile_error :: "diag \<Rightarrow> Compiler \<Rightarrow> Compiler" where
  "compile_error d c = c\<lparr>bytecode := [], cerr := cerr c @ [d]\<rparr>"

text \<open>\<^verbatim>\<open>bytecode[idx].operand = static_cast<int>(target)\<close>, backpatching a jump.\<close>

definition patch :: "nat \<Rightarrow> int \<Rightarrow> Compiler \<Rightarrow> Compiler" where
  "patch idx target c =
     c\<lparr>bytecode := (bytecode c)[idx := (bytecode c ! idx)\<lparr>operand := int_to_double target\<rparr>]\<rparr>"

definition getLiteralType :: "Token \<Rightarrow> Type" where
  "getLiteralType token =
     (if tok_type token = T_INT_LITERAL then INTEGER
      else if tok_type token = T_FLOAT_LITERAL then FLOAT
      else if tok_type token = T_STRING_LITERAL then STRING_LITERAL
      else if tok_type token = T_TRUE \<or> tok_type token = T_FALSE then BOOLEAN_LITERAL
      else UNKNOWN)"

text \<open>
  \<^verbatim>\<open>resolveExpressionType\<close> reads the symbol table and may write a warning; it returns
  the type and the lines written.
\<close>

fun resolveExpressionType :: "Expression \<Rightarrow> SymbolTable \<Rightarrow> Type \<times> diag list" where
  "resolveExpressionType (IdentifierExpression identifier) t =
     (case lookupSymbol (tok_value identifier) t of
        Some symbol \<Rightarrow> (type symbol, [])
      | None \<Rightarrow> (UNKNOWN, [CompilerWarning ''Attempted to resolve type of undeclared variable'']))"
| "resolveExpressionType (BinaryExpression left op right) t =
     (let (leftType, w1) = resolveExpressionType left t;
          (rightType, w2) = resolveExpressionType right t
      in (if tok_type op = T_PLUS \<and> leftType = STRING_LITERAL \<and> rightType = STRING_LITERAL
          then STRING_LITERAL
          else if (leftType = INTEGER \<or> leftType = FLOAT \<or> leftType = BOOLEAN_LITERAL) \<and>
                  (rightType = INTEGER \<or> rightType = FLOAT \<or> rightType = BOOLEAN_LITERAL)
          then (if leftType = FLOAT \<or> rightType = FLOAT then FLOAT else INTEGER)
          else UNKNOWN,
          w1 @ w2))"
| "resolveExpressionType expr t = (getType expr, [])"

text \<open>The type of an operand of a binary expression, as \<^verbatim>\<open>compileNode\<close> finds it.\<close>

definition operandType :: "Expression \<Rightarrow> SymbolTable \<Rightarrow> Type \<times> diag list" where
  "operandType e t =
     (case e of Literal token \<Rightarrow> (getLiteralType token, []) | _ \<Rightarrow> resolveExpressionType e t)"

text \<open>
  The arithmetic and comparison operators share one lowering: the operand types are
  checked, both operands are lowered and one instruction is emitted. \<open>binary_instruction\<close>
  is the check and the choice of the instruction; \<open>Inl\<close> is the line of a failed check.
\<close>

definition binary_instruction :: "TokenType \<Rightarrow> Type \<Rightarrow> Type \<Rightarrow> diag + Instruction" where
  "binary_instruction opType leftType rightType =
     (let numeric = ((leftType = INTEGER \<or> leftType = FLOAT) \<and>
                     (rightType = INTEGER \<or> rightType = FLOAT))
      in if opType = T_PLUS then
           (if leftType = STRING_LITERAL \<and> rightType = STRING_LITERAL then Inr CONCAT_STRING
            else if numeric then Inr ADD
            else Inl (CompilerError
              ''Operator + requires two numeric operands or two string operands for concatenation.''))
         else if opType = T_MINUS \<or> opType = T_STAR \<or> opType = T_SLASH then
           (if \<not> numeric then Inl (CompilerError ''Arithmetic operator requires numeric operands.'')
            else if opType = T_MINUS then Inr SUB
            else if opType = T_STAR then Inr MUL
            else Inr DIV)
         else if opType = T_GREATER \<or> opType = T_LESS \<or> opType = T_GREATER_EQUAL \<or>
                 opType = T_LESS_EQUAL \<or> opType = T_EQUAL_EQUAL \<or> opType = T_BANG_EQUAL then
           (if \<not> numeric then Inl (CompilerError ''Comparison operator requires numeric operands.'')
            else if opType = T_GREATER then Inr GREATER
            else if opType = T_LESS then Inr LESS
            else if opType = T_GREATER_EQUAL then Inr GREATER_EQUAL
            else if opType = T_LESS_EQUAL then Inr LESS_EQUAL
            else if opType = T_EQUAL_EQUAL then Inr EQUAL_EQUAL
            else Inr BANG_EQUAL)
         else Inl (CompilerError ''Unknown binary operator.''))"

text \<open>
  The type a declaration records. When \<^verbatim>\<open>getType\<close> of the initializer is
  \<^verbatim>\<open>IDENTIFIER_EXPRESSION\<close> the source casts the initializer to
  \<^verbatim>\<open>IdentifierExpression*\<close> and dereferences the result; for a unary or assignment
  expression over an identifier the cast yields a null pointer. \<open>Inr None\<close> is the
  undeclared identifier.
\<close>

definition declared_type :: "Expression option \<Rightarrow> SymbolTable \<Rightarrow> exn + Type option" where
  "declared_type initializer t =
     (case initializer of
        None \<Rightarrow> Inr (Some UNKNOWN)
      | Some init \<Rightarrow>
          if getType init = IDENTIFIER_EXPRESSION then
            (case init of
               IdentifierExpression identifier \<Rightarrow>
                 (case lookupSymbol (tok_value identifier) t of
                    Some initSymbol \<Rightarrow> Inr (Some (type initSymbol))
                  | None \<Rightarrow> Inr None)
             | _ \<Rightarrow> Inl undefined_behaviour)
          else Inr (Some (getType init)))"

definition do_exitScope :: "Compiler \<Rightarrow> Compiler" where
  "do_exitScope c =
     c\<lparr>symbolTable := fst (exitScope (symbolTable c)),
       cerr := cerr c @ snd (exitScope (symbolTable c))\<rparr>"

text \<open>
  \<^verbatim>\<open>Compiler::compileNode\<close>, one function per static type of the argument:
  \<open>compileExpression\<close> for the branches of the expression classes, \<open>compileNode\<close> for
  the others, \<open>compileStatements\<close> for the loop of a block and the
  \<^verbatim>\<open>exitScope\<close> after it. \<open>Inl\<close> is an exception or undefined behaviour; every
  \<^verbatim>\<open>if (bytecode.empty()) return;\<close> of the source is a test of the buffer here.
\<close>

fun compileExpression :: "Expression \<Rightarrow> Compiler \<Rightarrow> exn + Compiler" where
  "compileExpression (Literal token) c =
     (if tok_type token = T_INT_LITERAL then
        (case stoi (tok_value token) of
           Inl x \<Rightarrow> Inl x
         | Inr v \<Rightarrow> Inr (emit (BytecodeI PUSH_INT v) c))
      else if tok_type token = T_FLOAT_LITERAL then
        (case stof (tok_value token) of
           Inl x \<Rightarrow> Inl x
         | Inr v \<Rightarrow> Inr (emit (BytecodeF PUSH_FLOAT v) c))
      else if tok_type token = T_STRING_LITERAL then
        Inr (emit (BytecodeI PUSH_STRING (int (length (string_literals c))))
               (c\<lparr>string_literals := string_literals c @ [tok_value token]\<rparr>))
      else Inr c)"
| "compileExpression (BooleanLiteral token) c =
     (if tok_type token = T_TRUE then Inr (emit (BytecodeI PUSH_INT 1) c)
      else Inr (emit (BytecodeI PUSH_INT 0) c))"
| "compileExpression (IdentifierExpression identifier) c =
     (case lookupSymbol (tok_value identifier) (symbolTable c) of
        None \<Rightarrow> Inr (compile_error (CompilerError ''Undeclared variable'') c)
      | Some symbol \<Rightarrow>
          Inr (emit (Bytecode0 LOAD) (emit (BytecodeI PUSH_INT (address symbol)) c)))"
| "compileExpression (AssignmentExpression identifier v) c =
     (case lookupSymbol (tok_value identifier) (symbolTable c) of
        None \<Rightarrow> Inr (compile_error (CompilerError ''Assignment to undeclared variable'') c)
      | Some _ \<Rightarrow>
          (case compileExpression v c of
             Inl x \<Rightarrow> Inl x
           | Inr c1 \<Rightarrow>
               if bytecode c1 = [] then Inr c1
               else
                 let (assignedType, w) = resolveExpressionType v (symbolTable c1);
                     c2 = c1\<lparr>cerr := cerr c1 @ w\<rparr>
                 in (case lookupSymbol (tok_value identifier) (symbolTable c2) of
                       None \<Rightarrow> Inl undefined_behaviour
                     | Some symbol \<Rightarrow>
                         if type symbol \<noteq> UNKNOWN \<and> assignedType \<noteq> UNKNOWN \<and>
                            type symbol \<noteq> assignedType
                         then Inr (compile_error (CompilerError ''Type mismatch in assignment'') c2)
                         else
                           let c3 = (if type symbol = UNKNOWN
                                     then c2\<lparr>symbolTable :=
                                            setSymbolType (tok_value identifier) assignedType
                                              (symbolTable c2)\<rparr>
                                     else c2)
                           in Inr (emit (Bytecode0 STORE)
                                     (emit (BytecodeI PUSH_INT (address symbol)) c3)))))"
| "compileExpression (BinaryExpression left op right) c =
     (let (leftType, w1) = operandType left (symbolTable c);
          (rightType, w2) = operandType right (symbolTable c);
          c0 = c\<lparr>cerr := cerr c @ w1 @ w2\<rparr>;
          logical = ((leftType = BOOLEAN_LITERAL \<or> leftType = INTEGER) \<and>
                     (rightType = BOOLEAN_LITERAL \<or> rightType = INTEGER))
      in if tok_type op = T_AND then
           (if \<not> logical then
              Inr (compile_error
                (CompilerError ''Logical operator && requires boolean or integer operands.'') c0)
            else
              (case compileExpression left c0 of
                 Inl x \<Rightarrow> Inl x
               | Inr c1 \<Rightarrow>
                   if bytecode c1 = [] then Inr c1
                   else
                     let jumpToFalse_idx = length (bytecode c1);
                         c2 = emit (BytecodeI JUMP_IF_FALSE 0) c1
                     in (case compileExpression right c2 of
                           Inl x \<Rightarrow> Inl x
                         | Inr c3 \<Rightarrow>
                             if bytecode c3 = [] then Inr c3
                             else
                               let jumpToEnd_idx = length (bytecode c3);
                                   c4 = emit (BytecodeI JUMP 0) c3;
                                   c5 = patch jumpToFalse_idx (int (length (bytecode c4))) c4;
                                   c6 = emit (BytecodeI PUSH_INT 0) c5
                               in Inr (patch jumpToEnd_idx (int (length (bytecode c6))) c6))))
         else if tok_type op = T_OR then
           (if \<not> logical then
              Inr (compile_error
                (CompilerError ''Logical operator || requires boolean or integer operands.'') c0)
            else
              (case compileExpression left c0 of
                 Inl x \<Rightarrow> Inl x
               | Inr c1 \<Rightarrow>
                   if bytecode c1 = [] then Inr c1
                   else
                     let jumpToTrue_idx = length (bytecode c1);
                         c2 = emit (BytecodeI JUMP_IF_TRUE 0) c1
                     in (case compileExpression right c2 of
                           Inl x \<Rightarrow> Inl x
                         | Inr c3 \<Rightarrow>
                             if bytecode c3 = [] then Inr c3
                             else
                               let jumpToEnd_idx = length (bytecode c3);
                                   c4 = emit (BytecodeI JUMP 0) c3;
                                   c5 = patch jumpToTrue_idx (int (length (bytecode c4))) c4;
                                   c6 = emit (BytecodeI PUSH_INT 1) c5
                               in Inr (patch jumpToEnd_idx (int (length (bytecode c6))) c6))))
         else
           (case binary_instruction (tok_type op) leftType rightType of
              Inl d \<Rightarrow> Inr (compile_error d c0)
            | Inr i \<Rightarrow>
                (case compileExpression left c0 of
                   Inl x \<Rightarrow> Inl x
                 | Inr c1 \<Rightarrow>
                     if bytecode c1 = [] then Inr c1
                     else
                       (case compileExpression right c1 of
                          Inl x \<Rightarrow> Inl x
                        | Inr c2 \<Rightarrow>
                            if bytecode c2 = [] then Inr c2
                            else Inr (emit (Bytecode0 i) c2)))))"
| "compileExpression (UnaryExpression op right) c =
     (case compileExpression right c of
        Inl x \<Rightarrow> Inl x
      | Inr c1 \<Rightarrow>
          if bytecode c1 = [] then Inr c1
          else if tok_type op = T_BANG then Inr (emit (Bytecode0 NOT) c1)
          else if tok_type op = T_MINUS then Inr (emit (Bytecode0 NEGATE) c1)
          else Inr (compile_error (CompilerError ''Unknown unary operator.'') c1))"

fun compileNode :: "ASTNode \<Rightarrow> Compiler \<Rightarrow> exn + Compiler"
  and compileStatements :: "ASTNode list \<Rightarrow> Compiler \<Rightarrow> exn + Compiler" where
  "compileNode (ExpressionNode e) c = compileExpression e c"
| "compileNode (VariableDeclaration identifier initializer) c =
     (case declared_type initializer (symbolTable c) of
        Inl x \<Rightarrow> Inl x
      | Inr None \<Rightarrow>
          Inr (compile_error (CompilerError ''Initializer is an undeclared variable'') c)
      | Inr (Some varType) \<Rightarrow>
          (case addSymbol (tok_value identifier) varType (symbolTable c) of
             (added, t1, msgs) \<Rightarrow>
               let c1 = c\<lparr>symbolTable := t1, cerr := cerr c @ msgs\<rparr>
               in if \<not> added then Inr (c1\<lparr>bytecode := []\<rparr>)
                  else
                    (case initializer of
                       None \<Rightarrow> Inr c1
                     | Some init \<Rightarrow>
                         (case compileExpression init c1 of
                            Inl x \<Rightarrow> Inl x
                          | Inr c2 \<Rightarrow>
                              if bytecode c2 = [] then Inr c2
                              else
                                (case lookupSymbol (tok_value identifier) (symbolTable c2) of
                                   None \<Rightarrow>
                                     Inr (compile_error
                                       (InternalCompilerError ''Symbol not found after adding it.'')
                                       c2)
                                 | Some symbol \<Rightarrow>
                                     Inr (emit (Bytecode0 STORE)
                                            (emit (BytecodeI PUSH_INT (address symbol)) c2)))))))"
| "compileNode (BlockStatement statements) c =
     compileStatements statements (c\<lparr>symbolTable := enterScope (symbolTable c)\<rparr>)"
| "compileNode (IfStatement condition thenBranch elseBranch) c =
     (case compileExpression condition c of
        Inl x \<Rightarrow> Inl x
      | Inr c1 \<Rightarrow>
          if bytecode c1 = [] then Inr c1
          else
            let jumpIfFalseAddress = length (bytecode c1);
                c2 = emit (BytecodeI JUMP_IF_FALSE 0) c1
            in (case compileNode thenBranch c2 of
                  Inl x \<Rightarrow> Inl x
                | Inr c3 \<Rightarrow>
                    if bytecode c3 = [] then Inr c3
                    else
                      (case elseBranch of
                         None \<Rightarrow> Inr (patch jumpIfFalseAddress (int (length (bytecode c3))) c3)
                       | Some els \<Rightarrow>
                           let jumpToEndAddress = length (bytecode c3);
                               c4 = emit (BytecodeI JUMP 0) c3;
                               c5 = patch jumpIfFalseAddress (int (length (bytecode c4))) c4
                           in (case compileNode els c5 of
                                 Inl x \<Rightarrow> Inl x
                               | Inr c6 \<Rightarrow>
                                   if bytecode c6 = [] then Inr c6
                                   else Inr (patch jumpToEndAddress
                                               (int (length (bytecode c6))) c6)))))"
| "compileNode (PrintStatement expr) c =
     (case compileExpression expr c of
        Inl x \<Rightarrow> Inl x
      | Inr c1 \<Rightarrow>
          if bytecode c1 = [] then Inr c1
          else
            let (exprType, w) = resolveExpressionType expr (symbolTable c1);
                c2 = c1\<lparr>cerr := cerr c1 @ w\<rparr>
            in if exprType = STRING_LITERAL then Inr (emit (Bytecode0 PRINT_STRING) c2)
               else Inr (emit (Bytecode0 PRINT_VALUE) c2))"
| "compileNode OtherNode c =
     Inr (compile_error (CompilerError ''Unknown AST node type encountered.'') c)"
| "compileStatements [] c = Inr (do_exitScope c)"
| "compileStatements (stmt # stmts) c =
     (case compileNode stmt c of
        Inl x \<Rightarrow> Inl x
      | Inr c1 \<Rightarrow> if bytecode c1 = [] then Inr c1 else compileStatements stmts c1)"

text \<open>
  \<^verbatim>\<open>Compiler::compile\<close>; a null \<^verbatim>\<open>ast\<close> is \<open>None\<close>. The result is the returned vector
  and the compiler object after the call.
\<close>

definition compile :: "ASTNode option \<Rightarrow> Compiler \<Rightarrow> exn + (Bytecode list \<times> Compiler)" where
  "compile ast c =
     (let c0 = c\<lparr>bytecode := [], symbolTable := enterScope (symbolTable c)\<rparr>
      in (case (case ast of None \<Rightarrow> Inr c0 | Some node \<Rightarrow> compileNode node c0) of
            Inl x \<Rightarrow> Inl x
          | Inr c1 \<Rightarrow>
              let c2 = do_exitScope c1
              in if ast = None \<or> bytecode c2 = [] then Inr ([], c2)
                 else Inr (bytecode (emit (Bytecode0 HALT) c2), emit (Bytecode0 HALT) c2)))"

section \<open>Virtual machine\<close>

text \<open>
  What \<^verbatim>\<open>std::cout\<close> receives from the print instructions: a line of text, or a
  \<^verbatim>\<open>double\<close> written with \<^verbatim>\<open><<\<close> in its numeric form. The \<^verbatim>\<open>DEBUG\<close> trace of
  \<^verbatim>\<open>VM::run\<close> is not part of the model.
\<close>

datatype printed = PrintedLine string | PrintedDouble double

text \<open>
  The members of \<^verbatim>\<open>class VM\<close> that change during a run, and the two streams. The head of
  \<open>stack\<close> is \<^verbatim>\<open>stack.back()\<close>. The program is a parameter of the functions below.
\<close>

record VM =
  stack :: "double list"
  memory :: "double list"
  vm_string_literals :: "string list"
  pc :: int
  cout :: "printed list"
  vm_cerr :: "diag list"

text \<open>
  One iteration of the loop either goes on, or leaves \<^verbatim>\<open>run\<close> with a value, or has
  undefined behaviour (a \<^verbatim>\<open>static_cast<int>\<close> of a \<^verbatim>\<open>double\<close> that no \<^verbatim>\<open>int\<close> holds).
\<close>

datatype step_result = Continue VM | Return double VM | Undefined

definition vm_error :: "string \<Rightarrow> VM \<Rightarrow> step_result" where
  "vm_error msg vm = Return (Finite (- 1)) (vm\<lparr>vm_cerr := vm_cerr vm @ [VMError msg]\<rparr>)"

definition bool_to_double :: "bool \<Rightarrow> double" where
  "bool_to_double b = (if b then Finite 1 else Finite 0)"

text \<open>The instructions that pop \<^verbatim>\<open>val2\<close>, pop \<^verbatim>\<open>val1\<close> and push one result.\<close>

definition binary_op :: "string \<Rightarrow> (double \<Rightarrow> double \<Rightarrow> double) \<Rightarrow> VM \<Rightarrow> step_result" where
  "binary_op nm f vm =
     (case stack vm of
        val2 # val1 # rest \<Rightarrow> Continue (vm\<lparr>stack := f val1 val2 # rest\<rparr>)
      | _ \<Rightarrow> vm_error (''Stack underflow for '' @ nm) vm)"

text \<open>The body of the \<^verbatim>\<open>switch\<close>, after \<^verbatim>\<open>pc++\<close>.\<close>

definition step :: "Bytecode \<Rightarrow> VM \<Rightarrow> step_result" where
  "step b vm =
     (case instruction b of
        PUSH_INT \<Rightarrow> Continue (vm\<lparr>stack := operand b # stack vm\<rparr>)
      | PUSH_FLOAT \<Rightarrow> Continue (vm\<lparr>stack := operand b # stack vm\<rparr>)
      | ADD \<Rightarrow> binary_op ''ADD.'' fadd vm
      | SUB \<Rightarrow> binary_op ''SUB.'' fsub vm
      | MUL \<Rightarrow> binary_op ''MUL.'' fmul vm
      | DIV \<Rightarrow>
          (case stack vm of
             val2 # val1 # rest \<Rightarrow>
               if feq val2 (Finite 0)
               then vm_error ''Division by zero.'' (vm\<lparr>stack := val1 # rest\<rparr>)
               else Continue (vm\<lparr>stack := fdiv val1 val2 # rest\<rparr>)
           | _ \<Rightarrow> vm_error ''Stack underflow for DIV.'' vm)
      | NEGATE \<Rightarrow>
          (case stack vm of
             val # rest \<Rightarrow> Continue (vm\<lparr>stack := fneg val # rest\<rparr>)
           | [] \<Rightarrow> vm_error ''Stack underflow for NEGATE.'' vm)
      | POP \<Rightarrow>
          (case stack vm of
             val # rest \<Rightarrow> Continue (vm\<lparr>stack := rest\<rparr>)
           | [] \<Rightarrow> vm_error ''Stack underflow for POP.'' vm)
      | STORE \<Rightarrow>
          (case stack vm of
             a # v # rest \<Rightarrow>
               (case double_to_int a of
                  None \<Rightarrow> Undefined
                | Some addr \<Rightarrow>
                    if addr < 0
                    then vm_error ''Invalid memory address for STORE'' (vm\<lparr>stack := rest\<rparr>)
                    else if int (length (memory vm)) \<le> addr \<and> addr = INT_MAX then Undefined
                    else
                      let mem = (if int (length (memory vm)) \<le> addr
                                 then memory vm @
                                      replicate (nat addr + 1 - length (memory vm)) (Finite 0)
                                 else memory vm)
                      in Continue (vm\<lparr>stack := v # rest, memory := mem[nat addr := v]\<rparr>))
           | _ \<Rightarrow> vm_error ''Stack underflow for STORE.'' vm)
      | LOAD \<Rightarrow>
          (case stack vm of
             a # rest \<Rightarrow>
               (case double_to_int a of
                  None \<Rightarrow> Undefined
                | Some addr \<Rightarrow>
                    if addr < 0 \<or> int (length (memory vm)) \<le> addr
                    then vm_error ''Invalid memory address for LOAD'' (vm\<lparr>stack := rest\<rparr>)
                    else Continue (vm\<lparr>stack := memory vm ! nat addr # rest\<rparr>))
           | [] \<Rightarrow> vm_error ''Stack underflow for LOAD.'' vm)
      | HALT \<Rightarrow> (case stack vm of [] \<Rightarrow> Return (Finite 0) vm | val # rest \<Rightarrow> Return val vm)
      | JUMP_IF_FALSE \<Rightarrow>
          (case stack vm of
             condition # rest \<Rightarrow>
               if feq condition (Finite 0) then
                 (case double_to_int (operand b) of
                    None \<Rightarrow> Undefined
                  | Some target \<Rightarrow> Continue (vm\<lparr>stack := rest, pc := target\<rparr>))
               else Continue (vm\<lparr>stack := rest\<rparr>)
           | [] \<Rightarrow> vm_error ''Stack underflow for JUMP_IF_FALSE.'' vm)
      | JUMP \<Rightarrow>
          (case double_to_int (operand b) of
             None \<Rightarrow> Undefined
           | Some target \<Rightarrow> Continue (vm\<lparr>pc := target\<rparr>))
      | JUMP_IF_TRUE \<Rightarrow>
          (case stack vm of
             condition # rest \<Rightarrow>
               if \<not> feq condition (Finite 0) then
                 (case double_to_int (operand b) of
                    None \<Rightarrow> Undefined
                  | Some target \<Rightarrow> Continue (vm\<lparr>stack := rest, pc := target\<rparr>))
               else Continue (vm\<lparr>stack := rest\<rparr>)
           | [] \<Rightarrow> vm_error ''Stack underflow for JUMP_IF_TRUE.'' vm)
      | GREATER \<Rightarrow> binary_op ''GREATER.'' (\<lambda>val1 val2. bool_to_double (fless val2 val1)) vm
      | LESS \<Rightarrow> binary_op ''LESS.'' (\<lambda>val1 val2. bool_to_double (fless val1 val2)) vm
      | GREATER_EQUAL \<Rightarrow>
          binary_op ''GREATER_EQUAL.'' (\<lambda>val1 val2. bool_to_double (fle val2 val1)) vm
      | LESS_EQUAL \<Rightarrow> binary_op ''LESS_EQUAL.'' (\<lambda>val1 val2. bool_to_double (fle val1 val2)) vm
      | EQUAL_EQUAL \<Rightarrow> binary_op ''EQUAL_EQUAL.'' (\<lambda>val1 val2. bool_to_double (feq val1 val2)) vm
      | BANG_EQUAL \<Rightarrow>
          binary_op ''BANG_EQUAL.'' (\<lambda>val1 val2. bool_to_double (\<not> feq val1 val2)) vm
      | NOT \<Rightarrow>
          (case stack vm of
             val # rest \<Rightarrow> Continue (vm\<lparr>stack := bool_to_double (feq val (Finite 0)) # rest\<rparr>)
           | [] \<Rightarrow> vm_error ''Stack underflow for NOT.'' vm)
      | AND \<Rightarrow> vm_error ''Encountered logical operator instruction (AND/OR) directly.'' vm
      | OR \<Rightarrow> vm_error ''Encountered logical operator instruction (AND/OR) directly.'' vm
      | PUSH_STRING \<Rightarrow> Continue (vm\<lparr>stack := operand b # stack vm\<rparr>)
      | CONCAT_STRING \<Rightarrow>
          (case stack vm of
             i2 # i1 # rest \<Rightarrow>
               (case (double_to_int i2, double_to_int i1) of
                  (Some string_idx2, Some string_idx1) \<Rightarrow>
                    if string_idx1 < 0 \<or> int (length (vm_string_literals vm)) \<le> string_idx1 \<or>
                       string_idx2 < 0 \<or> int (length (vm_string_literals vm)) \<le> string_idx2
                    then vm_error ''Invalid string literal index for CONCAT_STRING.''
                           (vm\<lparr>stack := rest\<rparr>)
                    else
                      Continue
                        (vm\<lparr>stack := int_to_double (int (length (vm_string_literals vm))) # rest,
                            vm_string_literals :=
                              vm_string_literals vm @
                              [vm_string_literals vm ! nat string_idx1 @
                               vm_string_literals vm ! nat string_idx2]\<rparr>)
                | _ \<Rightarrow> Undefined)
           | _ \<Rightarrow> vm_error ''Stack underflow for CONCAT_STRING.'' vm)
      | PRINT_VALUE \<Rightarrow>
          (case stack vm of
             val # rest \<Rightarrow>
               Continue
                 (vm\<lparr>stack := rest,
                     cout := cout vm @
                       [if feq val (Finite 0) then PrintedLine ''false''
                        else if feq val (Finite 1) then PrintedLine ''true''
                        else PrintedDouble val]\<rparr>)
           | [] \<Rightarrow> vm_error ''Stack underflow for PRINT_VALUE.'' vm)
      | PRINT_STRING \<Rightarrow>
          (case stack vm of
             i # rest \<Rightarrow>
               (case double_to_int i of
                  None \<Rightarrow> Undefined
                | Some string_idx \<Rightarrow>
                    if string_idx < 0 \<or> int (length (vm_string_literals vm)) \<le> string_idx
                    then vm_error ''Invalid string literal index for PRINT_STRING.''
                           (vm\<lparr>stack := rest\<rparr>)
                    else
                      Continue
                        (vm\<lparr>stack := rest,
                            cout := cout vm @
                              [PrintedLine (vm_string_literals vm ! nat string_idx)]\<rparr>))
           | [] \<Rightarrow> vm_error ''Stack underflow for PRINT_STRING.'' vm))"

text \<open>
  The result of \<^verbatim>\<open>VM::run\<close>: the returned \<^verbatim>\<open>double\<close> with the machine as the call left
  it, or undefined behaviour. The \<^verbatim>\<open>while\<close> loop may run forever; \<open>None\<close> is a run that
  does not return. \<^verbatim>\<open>pc\<close> is an \<^verbatim>\<open>int\<close> compared with a \<^verbatim>\<open>size_t\<close>: a negative
  \<^verbatim>\<open>pc\<close> ends the loop.
\<close>

datatype outcome = Returned double VM | UndefinedBehaviour

partial_function (option) run_loop :: "Bytecode list \<Rightarrow> VM \<Rightarrow> outcome option" where
  "run_loop prog vm =
     (if 0 \<le> pc vm \<and> pc vm < int (length prog) then
        (case step (prog ! nat (pc vm)) (vm\<lparr>pc := pc vm + 1\<rparr>) of
           Continue vm' \<Rightarrow> run_loop prog vm'
         | Return v vm' \<Rightarrow> Some (Returned v vm')
         | Undefined \<Rightarrow> Some UndefinedBehaviour)
      else
        Some (Returned (Finite (- 1))
               (vm\<lparr>vm_cerr := vm_cerr vm @
                  [VMError ''Program did not halt. Missing HALT instruction or infinite loop.'']\<rparr>)))"

declare run_loop.simps [code]

definition VM_reset :: "string list \<Rightarrow> VM" where
  "VM_reset pool =
     \<lparr>stack = [], memory = [], vm_string_literals = pool, pc = 0, cout = [], vm_cerr = []\<rparr>"

definition run :: "Bytecode list \<Rightarrow> string list \<Rightarrow> outcome option" where
  "run prog pool = run_loop prog (VM_reset pool)"

section \<open>Executions and example programs\<close>

text \<open>The machine after \<open>n\<close> iterations of the loop of \<^verbatim>\<open>run\<close>, if it gets that far.\<close>

fun exec_n :: "Bytecode list \<Rightarrow> nat \<Rightarrow> VM \<Rightarrow> VM option" where
  "exec_n prog 0 vm = Some vm"
| "exec_n prog (Suc n) vm =
     (if 0 \<le> pc vm \<and> pc vm < int (length prog) then
        (case step (prog ! nat (pc vm)) (vm\<lparr>pc := pc vm + 1\<rparr>) of
           Continue vm' \<Rightarrow> exec_n prog n vm'
         | Return v vm' \<Rightarrow> None
         | Undefined \<Rightarrow> None)
      else None)"

text \<open>The indices of the instructions the first \<open>n\<close> iterations execute.\<close>

fun executed :: "Bytecode list \<Rightarrow> nat \<Rightarrow> VM \<Rightarrow> int list" where
  "executed prog 0 vm = []"
| "executed prog (Suc n) vm =
     (if 0 \<le> pc vm \<and> pc vm < int (length prog) then
        pc vm #
        (case step (prog ! nat (pc vm)) (vm\<lparr>pc := pc vm + 1\<rparr>) of
           Continue vm' \<Rightarrow> executed prog n vm'
         | Return v vm' \<Rightarrow> []
         | Undefined \<Rightarrow> [])
      else [])"

text \<open>
  \<^verbatim>\<open>run\<close> left through the \<^verbatim>\<open>HALT\<close> case: the instruction before \<^verbatim>\<open>pc\<close> is
  \<^verbatim>\<open>HALT\<close> and the value is the top of the stack, or 0 for the empty stack.
\<close>

definition halted_by_HALT :: "Bytecode list \<Rightarrow> double \<Rightarrow> VM \<Rightarrow> bool" where
  "halted_by_HALT prog v vm =
     (0 < pc vm \<and> pc vm \<le> int (length prog) \<and>
      instruction (prog ! nat (pc vm - 1)) = HALT \<and>
      v = (case stack vm of [] \<Rightarrow> Finite 0 | val # rest \<Rightarrow> val))"

definition did_not_halt :: diag where
  "did_not_halt = VMError ''Program did not halt. Missing HALT instruction or infinite loop.''"

text \<open>
  How one call of a lowering function changes the compiler: either it only appends, to the
  buffer and to the diagnostics, without an error line (\<open>grown\<close>); or it has written an
  error line and left the buffer empty (\<open>failed\<close>). The address counter never decreases.
\<close>

definition grown :: "Compiler \<Rightarrow> Compiler \<Rightarrow> bool" where
  "grown c c' =
     (\<exists>ds code. cerr c' = cerr c @ ds \<and> \<not> has_error ds \<and> bytecode c' = bytecode c @ code \<and>
        next_address (symbolTable c) \<le> next_address (symbolTable c'))"

definition failed :: "Compiler \<Rightarrow> Compiler \<Rightarrow> bool" where
  "failed c c' =
     (\<exists>ds. cerr c' = cerr c @ ds \<and> has_error ds \<and> bytecode c' = [] \<and>
        next_address (symbolTable c) \<le> next_address (symbolTable c'))"

definition lowered :: "Compiler \<Rightarrow> Compiler \<Rightarrow> bool" where
  "lowered c c' = (grown c c' \<or> failed c c')"

text \<open>The addresses a table holds, scope by scope, and its counter.\<close>

definition address_view :: "SymbolTable \<Rightarrow> (string \<Rightarrow> int option) list \<times> int" where
  "address_view t = (map (\<lambda>scope nm. map_option address (scope nm)) (scopes t), next_address t)"

text \<open>
  The operations of the symbol table as the compiler uses them, and a table together with
  the addresses its successful \<^verbatim>\<open>addSymbol\<close> calls have handed out, in order.
\<close>

datatype table_op = EnterScope | ExitScope | AddSymbol string Type | SetSymbolType string Type

fun apply_op :: "SymbolTable \<times> int list \<Rightarrow> table_op \<Rightarrow> SymbolTable \<times> int list" where
  "apply_op (t, allocated) EnterScope = (enterScope t, allocated)"
| "apply_op (t, allocated) ExitScope = (fst (exitScope t), allocated)"
| "apply_op (t, allocated) (AddSymbol nm ty) =
     (case addSymbol nm ty t of
        (added, t', msgs) \<Rightarrow>
          (t', if added
               then (case lookupSymbol nm t' of
                       Some symbol \<Rightarrow> allocated @ [address symbol]
                     | None \<Rightarrow> allocated)
               else allocated))"
| "apply_op (t, allocated) (SetSymbolType nm ty) = (setSymbolType nm ty t, allocated)"

definition table_after :: "table_op list \<Rightarrow> SymbolTable \<times> int list" where
  "table_after ops = foldl apply_op (SymbolTable_init, []) ops"

definition table_inv :: "SymbolTable \<times> int list \<Rightarrow> bool" where
  "table_inv s =
     (scopes (fst s) \<noteq> [] \<and> 0 \<le> next_address (fst s) \<and> sorted_wrt (<) (snd s) \<and>
      list_all (\<lambda>a. 0 \<le> a \<and> a < next_address (fst s)) (snd s))"

text \<open>
  The number literals the compiler reads: an integer literal is a run of digits with a
  value of at most \<^verbatim>\<open>INT_MAX\<close>, a float literal is one that \<^verbatim>\<open>std::stof\<close> reads. The cell
  such a literal stands for in the machine is the value of an integer literal, and the value
  of a float literal rounded to single precision; both are exact as \<^verbatim>\<open>double\<close>.
\<close>

definition number_literal :: "Token \<Rightarrow> bool" where
  "number_literal token =
     (if tok_type token = T_INT_LITERAL then
        tok_value token \<noteq> [] \<and> list_all is_digit (tok_value token) \<and>
        int (digits_val (tok_value token)) \<le> INT_MAX
      else
        tok_type token = T_FLOAT_LITERAL \<and>
        (case stof (tok_value token) of Inl x \<Rightarrow> False | Inr f \<Rightarrow> True))"

definition literal_number :: "Token \<Rightarrow> double" where
  "literal_number token =
     (if tok_type token = T_INT_LITERAL then Finite (of_nat (digits_val (tok_value token)))
      else float_to_double (round_float (decimal_value (tok_value token))))"

definition push_of :: "Token \<Rightarrow> Instruction" where
  "push_of token = (if tok_type token = T_INT_LITERAL then PUSH_INT else PUSH_FLOAT)"

text \<open>The four arithmetic operators, evaluated on doubles, and their instructions.\<close>

definition is_arith :: "TokenType \<Rightarrow> bool" where
  "is_arith opType =
     (opType = T_PLUS \<or> opType = T_MINUS \<or> opType = T_STAR \<or> opType = T_SLASH)"

definition arith :: "TokenType \<Rightarrow> double \<Rightarrow> double \<Rightarrow> double" where
  "arith opType x y =
     (if opType = T_PLUS then fadd x y
      else if opType = T_MINUS then fsub x y
      else if opType = T_STAR then fmul x y
      else fdiv x y)"

definition arith_instruction :: "TokenType \<Rightarrow> Instruction" where
  "arith_instruction opType =
     (if opType = T_PLUS then ADD
      else if opType = T_MINUS then SUB
      else if opType = T_STAR then MUL
      else DIV)"

text \<open>
  The two short-circuit operators: the conditional jump after the left operand, the value
  of the landing pad, and the values of the left operand that take the jump.
\<close>

definition short_jump :: "TokenType \<Rightarrow> Instruction" where
  "short_jump opType = (if opType = T_AND then JUMP_IF_FALSE else JUMP_IF_TRUE)"

definition short_value :: "TokenType \<Rightarrow> int" where
  "short_value opType = (if opType = T_AND then 0 else 1)"

definition short_circuits :: "TokenType \<Rightarrow> double \<Rightarrow> bool" where
  "short_circuits opType v = (if opType = T_AND then feq v (Finite 0) else \<not> feq v (Finite 0))"

text \<open>
  Jumps that go forward: a jump at index \<open>i\<close> whose operand is the \<^verbatim>\<open>int\<close> of an index
  behind \<open>i\<close> and not behind the end of the code. \<open>forward_from k code\<close> says so of
  every instruction of \<open>code\<close> from index \<open>k\<close> on.
\<close>

definition is_jump :: "Instruction \<Rightarrow> bool" where
  "is_jump i = (i = JUMP \<or> i = JUMP_IF_FALSE \<or> i = JUMP_IF_TRUE)"

definition forward_at :: "Bytecode list \<Rightarrow> nat \<Rightarrow> bool" where
  "forward_at code i =
     (\<not> is_jump (instruction (code ! i)) \<or>
      (\<exists>t. operand (code ! i) = int_to_double t \<and> int i < t \<and> t \<le> int (length code)))"

definition forward_from :: "nat \<Rightarrow> Bytecode list \<Rightarrow> bool" where
  "forward_from k code = (\<forall>i. k \<le> i \<and> i < length code \<longrightarrow> forward_at code i)"

text \<open>
  The trees on which \<^verbatim>\<open>compile\<close> returns. \<^verbatim>\<open>std::stoi\<close> and \<^verbatim>\<open>std::stof\<close> throw on a
  number literal they cannot read, and the cast of a declaration's initializer is null when
  \<^verbatim>\<open>getType\<close> is \<^verbatim>\<open>IDENTIFIER_EXPRESSION\<close> and the initializer is not an identifier (a
  unary or assignment expression over one). \<open>returning\<close> excludes both.
\<close>

definition readable :: "Token \<Rightarrow> bool" where
  "readable token =
     (if tok_type token = T_INT_LITERAL then
        (case stoi (tok_value token) of Inl x \<Rightarrow> False | Inr v \<Rightarrow> True)
      else if tok_type token = T_FLOAT_LITERAL then
        (case stof (tok_value token) of Inl x \<Rightarrow> False | Inr v \<Rightarrow> True)
      else True)"

fun readable_expr :: "Expression \<Rightarrow> bool" where
  "readable_expr (Literal token) = readable token"
| "readable_expr (BooleanLiteral token) = True"
| "readable_expr (IdentifierExpression identifier) = True"
| "readable_expr (AssignmentExpression identifier v) = readable_expr v"
| "readable_expr (BinaryExpression left op right) = (readable_expr left \<and> readable_expr right)"
| "readable_expr (UnaryExpression op right) = readable_expr right"

fun is_identifier :: "Expression \<Rightarrow> bool" where
  "is_identifier (IdentifierExpression identifier) = True"
| "is_identifier _ = False"

fun returning :: "ASTNode \<Rightarrow> bool" where
  "returning (ExpressionNode e) = readable_expr e"
| "returning (VariableDeclaration identifier initializer) =
     (case initializer of
        None \<Rightarrow> True
      | Some init \<Rightarrow>
          readable_expr init \<and> (getType init = IDENTIFIER_EXPRESSION \<longrightarrow> is_identifier init))"
| "returning (BlockStatement statements) = list_all returning statements"
| "returning (IfStatement condition thenBranch elseBranch) =
     (readable_expr condition \<and> returning thenBranch \<and>
      (case elseBranch of None \<Rightarrow> True | Some els \<Rightarrow> returning els))"
| "returning (PrintStatement expr) = readable_expr expr"
| "returning OtherNode = True"

text \<open>Trees of example programs, as the parser builds them.\<close>

definition mk_token :: "TokenType \<Rightarrow> string \<Rightarrow> Token" where
  "mk_token ty v = \<lparr>tok_type = ty, tok_value = v, line = 1, column = 1\<rparr>"

definition int_literal :: "string \<Rightarrow> Expression" where
  "int_literal v = Literal (mk_token T_INT_LITERAL v)"

definition var_ref :: "string \<Rightarrow> Expression" where
  "var_ref x = IdentifierExpression (mk_token T_IDENTIFIER x)"

definition assign :: "string \<Rightarrow> Expression \<Rightarrow> Expression" where
  "assign x e = AssignmentExpression (mk_token T_IDENTIFIER x) e"

definition var_decl :: "string \<Rightarrow> Expression option \<Rightarrow> ASTNode" where
  "var_decl x initializer = VariableDeclaration (mk_token T_IDENTIFIER x) initializer"

definition false_literal :: Expression where
  "false_literal = BooleanLiteral (mk_token T_FALSE ''false'')"

definition true_literal :: Expression where
  "true_literal = BooleanLiteral (mk_token T_TRUE ''true'')"

text \<open>\<^verbatim>\<open>var x; print(7);\<close>\<close>

definition decl_then_print :: ASTNode where
  "decl_then_print = BlockStatement [var_decl ''x'' None, PrintStatement (int_literal ''7'')]"

text \<open>\<^verbatim>\<open>print(7);\<close> alone, and \<^verbatim>\<open>print(y);\<close> with \<open>y\<close> undeclared.\<close>

definition print_only :: ASTNode where
  "print_only = PrintStatement (int_literal ''7'')"

definition print_undeclared :: ASTNode where
  "print_undeclared = PrintStatement (var_ref ''y'')"

text \<open>\<^verbatim>\<open>var x = 1; print(x = 7);\<close>\<close>

definition assign_print :: ASTNode where
  "assign_print =
     BlockStatement
       [var_decl ''x'' (Some (int_literal ''1'')),
        PrintStatement (assign ''x'' (int_literal ''7''))]"

text \<open>\<^verbatim>\<open>var a = 20; var b = 4;\<close>\<close>

definition two_declarations :: ASTNode where
  "two_declarations =
     BlockStatement
       [var_decl ''a'' (Some (int_literal ''20'')), var_decl ''b'' (Some (int_literal ''4''))]"

text \<open>\<^verbatim>\<open>var x = 1; false && (x = 5);\<close> and \<^verbatim>\<open>var x = 1; true || (x = 5);\<close>\<close>

definition and_assign :: ASTNode where
  "and_assign =
     BlockStatement
       [var_decl ''x'' (Some (int_literal ''1'')),
        ExpressionNode
          (BinaryExpression false_literal (mk_token T_AND ''&&'') (assign ''x'' (int_literal ''5'')))]"

definition or_assign :: ASTNode where
  "or_assign =
     BlockStatement
       [var_decl ''x'' (Some (int_literal ''1'')),
        ExpressionNode
          (BinaryExpression true_literal (mk_token T_OR ''||'') (assign ''x'' (int_literal ''5'')))]"

text \<open>\<^verbatim>\<open>false && true;\<close>\<close>

definition and_only :: ASTNode where
  "and_only =
     ExpressionNode (BinaryExpression false_literal (mk_token T_AND ''&&'') true_literal)"

text \<open>\<^verbatim>\<open>0.1 + 0.2;\<close> and \<^verbatim>\<open>2147483648 + 1;\<close>\<close>

definition float_literal :: "string \<Rightarrow> Expression" where
  "float_literal v = Literal (mk_token T_FLOAT_LITERAL v)"

definition sum_of_tenths :: ASTNode where
  "sum_of_tenths =
     ExpressionNode
       (BinaryExpression (float_literal ''0.1'') (mk_token T_PLUS ''+'') (float_literal ''0.2''))"

definition sum_beyond_int :: ASTNode where
  "sum_beyond_int =
     ExpressionNode
       (BinaryExpression (int_literal ''2147483648'') (mk_token T_PLUS ''+'') (int_literal ''1''))"

text \<open>\<^verbatim>\<open>var y = -x;\<close> and \<^verbatim>\<open>var y = x;\<close> with \<open>x\<close> undeclared.\<close>

definition declare_negated :: ASTNode where
  "declare_negated =
     var_decl ''y'' (Some (UnaryExpression (mk_token T_MINUS ''-'') (var_ref ''x'')))"

definition declare_copy :: ASTNode where
  "declare_copy = var_decl ''y'' (Some (var_ref ''x''))"

text \<open>\<^verbatim>\<open>print(1); { if (true) { y = 1; } } print(2);\<close> with \<open>y\<close> undeclared.\<close>

definition nested_failure :: ASTNode where
  "nested_failure =
     BlockStatement
       [PrintStatement (int_literal ''1''),
        BlockStatement
          [IfStatement true_literal
             (BlockStatement [ExpressionNode (assign ''y'' (int_literal ''1''))]) None],
        PrintStatement (int_literal ''2'')]"

text \<open>
  What a fresh compiler makes of a tree: the exception or undefined behaviour, or the program
  with the diagnostics written; and the value \<^verbatim>\<open>run\<close> then returns for the program.
\<close>

definition compile_outcome :: "ASTNode \<Rightarrow> exn + Bytecode list \<times> diag list" where
  "compile_outcome ast =
     (case compile (Some ast) Compiler_init of
        Inl x \<Rightarrow> Inl x
      | Inr (prog, c') \<Rightarrow> Inr (prog, cerr c'))"

definition returned_value :: "ASTNode \<Rightarrow> double option" where
  "returned_value ast =
     (case compile (Some ast) Compiler_init of
        Inl x \<Rightarrow> None
      | Inr (prog, c') \<Rightarrow>
          (case run prog (string_literals c') of
             Some (Returned v vm') \<Rightarrow> Some v
           | _ \<Rightarrow> None))"

text \<open>The program of a state of the compiler, and its operands, for an expression.\<close>

definition operands_of :: "Expression \<Rightarrow> double list" where
  "operands_of e =
     (case compileExpression e Compiler_init of
        Inl x \<Rightarrow> []
      | Inr c \<Rightarrow> map operand (bytecode c))"

section \<open>The virtual machine returns through HALT or with an error\<close>

lemma step_Continue_cerr:
  "step b vm = Continue vm' \<Longrightarrow> vm_cerr vm' = vm_cerr vm"
  by (auto simp: step_def binary_op_def vm_error_def Let_def
      split: Instruction.splits list.splits option.splits if_splits)

lemma step_Return:
  "step b vm = Return v vm' \<Longrightarrow>
     (instruction b = HALT \<and> vm' = vm \<and>
      v = (case stack vm of [] \<Rightarrow> Finite 0 | val # rest \<Rightarrow> val)) \<or>
     (instruction b \<noteq> HALT \<and> v = Finite (- 1) \<and>
      (\<exists>msg. vm_cerr vm' = vm_cerr vm @ [VMError msg]))"
  by (auto simp: step_def binary_op_def vm_error_def Let_def
      split: Instruction.splits list.splits option.splits if_splits)

lemma run_loop_Returned:
  assumes "run_loop prog vm = Some r"
  shows "vm_cerr vm = [] \<Longrightarrow> r = Returned v vm' \<Longrightarrow>
     (vm_cerr vm' = [] \<and> halted_by_HALT prog v vm') \<or>
     (v = Finite (- 1) \<and> (\<exists>msg. vm_cerr vm' = [VMError msg]))"
  using assms
proof (induction arbitrary: v vm' rule: run_loop.raw_induct)
  case (1 loop prog vm r)
  show ?case
  proof (cases "0 \<le> pc vm \<and> pc vm < int (length prog)")
    case False
    with "1.hyps" "1.prems" show ?thesis by auto
  next
    case True
    let ?b = "prog ! nat (pc vm)"
    let ?vm1 = "vm\<lparr>pc := pc vm + 1\<rparr>"
    show ?thesis
    proof (cases "step ?b ?vm1")
      case (Continue vm2)
      then have "vm_cerr vm2 = []"
        using step_Continue_cerr[OF Continue] "1.prems" by simp
      moreover have "loop prog vm2 = Some r"
        using "1.hyps" True Continue by simp
      moreover have "run_loop prog vm2 = Some r"
        using "1.prems"(3) True Continue by (subst (asm) run_loop.simps) simp
      ultimately show ?thesis using "1.IH" "1.prems" by blast
    next
      case (Return w vm2)
      then have "r = Returned w vm2" using "1.hyps" True by simp
      then have eq: "w = v" "vm2 = vm'" using "1.prems" by simp_all
      from step_Return[OF Return] show ?thesis
        using eq True "1.prems" by (auto simp: halted_by_HALT_def)
    next
      case Undefined
      then show ?thesis using "1.hyps" True "1.prems" by simp
    qed
  qed
qed (rule assms)

lemma run_loop_exec_n:
  "exec_n prog n vm = Some vm' \<Longrightarrow> run_loop prog vm = run_loop prog vm'"
proof (induction n arbitrary: vm)
  case 0
  then show ?case by simp
next
  case (Suc n)
  then show ?case
    by (subst run_loop.simps) (auto split: if_splits step_result.splits)
qed

lemma exec_n_cerr:
  "exec_n prog n vm = Some vm' \<Longrightarrow> vm_cerr vm' = vm_cerr vm"
proof (induction n arbitrary: vm)
  case 0
  then show ?case by simp
next
  case (Suc n)
  then show ?case
    by (auto split: if_splits step_result.splits dest!: step_Continue_cerr)
qed

text \<open>
  Claim C4. For every program and string pool, a \<^verbatim>\<open>run\<close> that returns has either left
  through the \<^verbatim>\<open>HALT\<close> instruction without any error line, and then its value is the top of
  the operand stack, or 0 when the stack is empty; or it has written an error line and
  returned the sentinel \<open>-1\<close>. And when the loop reaches a program counter outside the
  instruction sequence, \<^verbatim>\<open>run\<close> writes the error \<^verbatim>\<open>Program did not halt\<close> and returns
  the sentinel.
\<close>

theorem run_returns_by_HALT_or_sentinel:
  "(run prog pool = Some (Returned v vm') \<longrightarrow>
      (vm_cerr vm' = [] \<and> halted_by_HALT prog v vm') \<or>
      (v = Finite (- 1) \<and> (\<exists>msg. vm_cerr vm' = [VMError msg]))) \<and>
   (exec_n prog n (VM_reset pool) = Some vm \<and> \<not> (0 \<le> pc vm \<and> pc vm < int (length prog)) \<longrightarrow>
      run prog pool = Some (Returned (Finite (- 1)) (vm\<lparr>vm_cerr := [did_not_halt]\<rparr>)))"
proof (intro conjI impI)
  assume "run prog pool = Some (Returned v vm')"
  then have "run_loop prog (VM_reset pool) = Some (Returned v vm')"
    by (simp add: run_def)
  from run_loop_Returned[OF this, of v vm']
  show "(vm_cerr vm' = [] \<and> halted_by_HALT prog v vm') \<or>
        (v = Finite (- 1) \<and> (\<exists>msg. vm_cerr vm' = [VMError msg]))"
    by (simp add: VM_reset_def)
next
  assume a: "exec_n prog n (VM_reset pool) = Some vm \<and>
             \<not> (0 \<le> pc vm \<and> pc vm < int (length prog))"
  then have "vm_cerr vm = []"
    using exec_n_cerr[of prog n "VM_reset pool" vm] by (simp add: VM_reset_def)
  moreover have "run prog pool = run_loop prog vm"
    using a run_loop_exec_n[of prog n "VM_reset pool" vm] by (simp add: run_def)
  moreover have "run_loop prog vm =
      Some (Returned (Finite (- 1)) (vm\<lparr>vm_cerr := vm_cerr vm @ [did_not_halt]\<rparr>))"
    using a by (subst run_loop.simps) (auto simp: did_not_halt_def)
  ultimately show "run prog pool =
      Some (Returned (Finite (- 1)) (vm\<lparr>vm_cerr := [did_not_halt]\<rparr>))"
    by simp
qed

theorem run_returns_by_HALT_or_sentinel_witness:
  "run [BytecodeI PUSH_INT 7, Bytecode0 HALT] [] =
     Some (Returned (Finite 7)
       \<lparr>stack = [Finite 7], memory = [], vm_string_literals = [], pc = 2, cout = [],
        vm_cerr = []\<rparr>) \<and>
   halted_by_HALT [BytecodeI PUSH_INT 7, Bytecode0 HALT] (Finite 7)
     \<lparr>stack = [Finite 7], memory = [], vm_string_literals = [], pc = 2, cout = [],
      vm_cerr = []\<rparr> \<and>
   exec_n [BytecodeI PUSH_INT 7] 1 (VM_reset []) =
     Some \<lparr>stack = [Finite 7], memory = [], vm_string_literals = [], pc = 1, cout = [],
           vm_cerr = []\<rparr> \<and>
   run [BytecodeI PUSH_INT 7] [] =
     Some (Returned (Finite (- 1))
       \<lparr>stack = [Finite 7], memory = [], vm_string_literals = [], pc = 1, cout = [],
        vm_cerr = [did_not_halt]\<rparr>)"
proof -
  let ?vmA = "\<lparr>stack = [Finite 7], memory = [], vm_string_literals = [], pc = 2, cout = [],
               vm_cerr = []\<rparr>"
  let ?vmB = "\<lparr>stack = [Finite 7], memory = [], vm_string_literals = [], pc = 1, cout = [],
               vm_cerr = []\<rparr>"
  have h1: "run [BytecodeI PUSH_INT 7, Bytecode0 HALT] [] = Some (Returned (Finite 7) ?vmA)"
    by code_simp
  have h2: "exec_n [BytecodeI PUSH_INT 7] 1 (VM_reset []) = Some ?vmB"
    by code_simp
  have h3: "\<not> (0 \<le> pc ?vmB \<and> pc ?vmB < int (length [BytecodeI PUSH_INT 7]))"
    by simp
  from run_returns_by_HALT_or_sentinel
    [where prog = "[BytecodeI PUSH_INT 7, Bytecode0 HALT]" and pool = "[]" and v = "Finite 7"
       and vm' = ?vmA]
    h1
  have g1: "halted_by_HALT [BytecodeI PUSH_INT 7, Bytecode0 HALT] (Finite 7) ?vmA"
    by simp
  from run_returns_by_HALT_or_sentinel
    [where prog = "[BytecodeI PUSH_INT 7]" and pool = "[]" and n = 1 and vm = ?vmB]
    h2 h3
  have g2: "run [BytecodeI PUSH_INT 7] [] =
      Some (Returned (Finite (- 1)) (?vmB\<lparr>vm_cerr := [did_not_halt]\<rparr>))"
    by blast
  show ?thesis using h1 h2 g1 g2 by simp
qed

section \<open>A declaration without initializer as the first construct\<close>

text \<open>
  Claim C9. There is a well-formed tree without any semantic violation for which
  \<^verbatim>\<open>compile\<close> returns the empty program: for \<^verbatim>\<open>var x; print(7);\<close> the declaration emits
  nothing, the block returns on the empty buffer, the print statement is skipped and no
  diagnostic is written, although \<^verbatim>\<open>print(7);\<close> alone compiles. A failed compilation
  (\<^verbatim>\<open>print(y);\<close> with \<open>y\<close> undeclared) returns the same empty program.
\<close>

theorem compile_empty_without_violation:
  "(case compile (Some decl_then_print) Compiler_init of
      Inl x \<Rightarrow> False
    | Inr (prog, c') \<Rightarrow> prog = [] \<and> cerr c' = []) \<and>
   (case compile (Some print_only) Compiler_init of
      Inl x \<Rightarrow> False
    | Inr (prog, c') \<Rightarrow> map instruction prog = [PUSH_INT, PRINT_VALUE, HALT] \<and> cerr c' = []) \<and>
   (case compile (Some print_undeclared) Compiler_init of
      Inl x \<Rightarrow> False
    | Inr (prog, c') \<Rightarrow> prog = [] \<and> has_error (cerr c'))"
  by code_simp

section \<open>Every lowering function appends or fails\<close>

lemma has_error_append [simp]: "has_error (xs @ ys) = (has_error xs \<or> has_error ys)"
  by (simp add: has_error_def)

lemma has_error_Nil [simp]: "\<not> has_error []"
  by (simp add: has_error_def)

lemma has_error_single [simp]: "has_error [d] = is_error d"
  by (simp add: has_error_def)

lemma grown_refl: "grown c c"
  by (auto simp: grown_def)

lemma grown_trans: "grown c c1 \<Longrightarrow> grown c1 c2 \<Longrightarrow> grown c c2"
  by (fastforce simp: grown_def)

lemma grown_failed: "grown c c1 \<Longrightarrow> failed c1 c2 \<Longrightarrow> failed c c2"
  by (fastforce simp: grown_def failed_def)

lemma grown_lowered: "grown c c1 \<Longrightarrow> lowered c1 c2 \<Longrightarrow> lowered c c2"
  by (auto simp: lowered_def intro: grown_trans grown_failed)

lemma lowered_nonempty: "lowered c c1 \<Longrightarrow> bytecode c1 \<noteq> [] \<Longrightarrow> grown c c1"
  by (auto simp: lowered_def failed_def)

lemma grown_emit: "grown c c1 \<Longrightarrow> grown c (emit b c1)"
  by (auto simp: grown_def emit_def)

lemma grown_patch: "grown c c1 \<Longrightarrow> length (bytecode c) \<le> idx \<Longrightarrow> grown c (patch idx t c1)"
  by (auto simp: grown_def patch_def list_update_append)

lemma grown_warn: "grown c c1 \<Longrightarrow> \<not> has_error w \<Longrightarrow> grown c (c1\<lparr>cerr := cerr c1 @ w\<rparr>)"
  by (auto simp: grown_def)

lemma grown_table:
  "grown c c1 \<Longrightarrow> next_address (symbolTable c1) \<le> next_address t \<Longrightarrow>
   grown c (c1\<lparr>symbolTable := t\<rparr>)"
  by (auto simp: grown_def)

lemma grown_strings: "grown c c1 \<Longrightarrow> grown c (c1\<lparr>string_literals := sl\<rparr>)"
  by (auto simp: grown_def)

lemma grown_error: "grown c c1 \<Longrightarrow> is_error d \<Longrightarrow> failed c (compile_error d c1)"
  by (auto simp: grown_def failed_def compile_error_def)

lemma grown_length: "grown c c1 \<Longrightarrow> length (bytecode c) \<le> length (bytecode c1)"
  by (auto simp: grown_def)

lemma resolve_no_error: "\<not> has_error (snd (resolveExpressionType e t))"
proof (induction e)
  case (IdentifierExpression tok)
  show ?case by (simp split: option.splits)
next
  case (BinaryExpression left op right)
  then show ?case by (auto simp: Let_def split: prod.splits)
qed simp_all

lemma operandType_no_error: "\<not> has_error (snd (operandType e t))"
  by (cases e) (simp_all add: operandType_def resolve_no_error del: resolveExpressionType.simps)

lemma binary_instruction_error: "binary_instruction o1 l r = Inl d \<Longrightarrow> is_error d"
  by (auto simp: binary_instruction_def Let_def split: if_splits)

lemma setSymbolType_next [simp]: "next_address (setSymbolType nm ty t) = next_address t"
  by (simp add: setSymbolType_def)

lemma lowered_refl: "lowered c c"
  by (simp add: lowered_def grown_refl)

lemma grown_is_lowered: "grown c c' \<Longrightarrow> lowered c c'"
  by (simp add: lowered_def)

lemma lowered_emit: "grown c c1 \<Longrightarrow> lowered c (emit b c1)"
  by (simp add: lowered_def grown_emit)

lemma lowered_error: "grown c c1 \<Longrightarrow> is_error d \<Longrightarrow> lowered c (compile_error d c1)"
  by (simp add: lowered_def grown_error)

text \<open>The tail of the lowering of a short-circuit operator, after both operands.\<close>

lemma grown_logical_tail:
  assumes "grown c c1" "grown c c3"
  shows "grown c (patch (length (bytecode c3)) t2
            (emit b3 (patch (length (bytecode c1)) t1 (emit b2 c3))))"
  using assms by (intro grown_patch grown_emit) (auto dest: grown_length)

lemma compileExpression_lowered:
  "compileExpression e c = Inr c' \<Longrightarrow> lowered c c'"
proof (induction e arbitrary: c c')
  case (Literal tok)
  then show ?case
    by (auto split: if_splits sum.splits
        intro!: lowered_emit grown_strings grown_refl lowered_refl)
next
  case (BooleanLiteral tok)
  then show ?case
    by (auto split: if_splits intro!: lowered_emit grown_refl)
next
  case (IdentifierExpression tok)
  then show ?case
    by (auto split: option.splits
        intro!: lowered_emit grown_emit grown_refl lowered_error)
next
  case (UnaryExpression op right)
  from UnaryExpression.prems obtain c1 where c1: "compileExpression right c = Inr c1"
    by (auto split: sum.splits)
  have l1: "lowered c c1" using UnaryExpression.IH[OF c1] .
  show ?case
  proof (cases "bytecode c1 = []")
    case True
    with UnaryExpression.prems c1 l1 show ?thesis by simp
  next
    case False
    then have "grown c c1" using l1 by (rule lowered_nonempty[rotated])
    with UnaryExpression.prems c1 False show ?thesis
      by (auto split: if_splits
          intro!: lowered_emit lowered_error)
  qed
next
  case (AssignmentExpression tok v)
  show ?case
  proof (cases "lookupSymbol (tok_value tok) (symbolTable c)")
    case None
    with AssignmentExpression.prems show ?thesis
      by (auto intro!: lowered_error grown_refl)
  next
    case (Some s0)
    with AssignmentExpression.prems obtain c1 where c1: "compileExpression v c = Inr c1"
      by (auto split: sum.splits)
    have l1: "lowered c c1" using AssignmentExpression.IH[OF c1] .
    show ?thesis
    proof (cases "bytecode c1 = []")
      case True
      with AssignmentExpression.prems Some c1 l1 show ?thesis by simp
    next
      case False
      then have g1: "grown c c1" using l1 by (rule lowered_nonempty[rotated])
      obtain ty w where r: "resolveExpressionType v (symbolTable c1) = (ty, w)"
        by force
      have nw: "\<not> has_error w" using resolve_no_error[of v "symbolTable c1"] r by simp
      have g2: "grown c (c1\<lparr>cerr := cerr c1 @ w\<rparr>)" using g1 nw by (rule grown_warn)
      have g3: "grown c (c1\<lparr>cerr := cerr c1 @ w,
                  symbolTable := setSymbolType (tok_value tok) ty (symbolTable c1)\<rparr>)"
        using grown_table[OF g2, of "setSymbolType (tok_value tok) ty (symbolTable c1)"]
        by simp
      from AssignmentExpression.prems Some c1 False r g2 g3 show ?thesis
        by (auto simp: Let_def split: option.splits if_splits
            intro!: lowered_emit grown_emit lowered_error)
    qed
  qed
next
  case (BinaryExpression left op right)
  obtain lt w1 where lt: "operandType left (symbolTable c) = (lt, w1)" by force
  obtain rt w2 where rt: "operandType right (symbolTable c) = (rt, w2)" by force
  let ?c0 = "c\<lparr>cerr := cerr c @ w1 @ w2\<rparr>"
  have "\<not> has_error (w1 @ w2)"
    using operandType_no_error[of left "symbolTable c"]
      operandType_no_error[of right "symbolTable c"] lt rt by simp
  then have g0: "grown c ?c0" using grown_warn[OF grown_refl] by blast
  note prems = BinaryExpression.prems[simplified compileExpression.simps lt rt Let_def prod.case]
  show ?case
  proof (cases "compileExpression left ?c0")
    case (Inl x)
    with prems show ?thesis
      by (auto split: if_splits sum.splits
          intro!: lowered_error[OF g0] dest: binary_instruction_error)
  next
    case (Inr c1)
    have l1: "lowered c c1" using grown_lowered[OF g0 BinaryExpression.IH(1)[OF Inr]] .
    show ?thesis
    proof (cases "bytecode c1 = []")
      case True
      with prems Inr l1 show ?thesis
        by (auto split: if_splits sum.splits
            intro!: lowered_error[OF g0] dest: binary_instruction_error)
    next
      case False
      then have g1: "grown c c1" using l1 by (rule lowered_nonempty[rotated])
      have low: "\<And>b c3. compileExpression right (emit b c1) = Inr c3 \<Longrightarrow> lowered c c3"
        using grown_lowered[OF grown_emit[OF g1] BinaryExpression.IH(2)] by blast
      have low': "\<And>c3. compileExpression right c1 = Inr c3 \<Longrightarrow> lowered c c3"
        using grown_lowered[OF g1 BinaryExpression.IH(2)] by blast
      from prems Inr False show ?thesis
        by (auto split: if_splits sum.splits
            intro!: lowered_error[OF g0] grown_is_lowered[OF grown_logical_tail[OF g1]]
              lowered_emit
            dest: binary_instruction_error
            dest!: low low' lowered_nonempty)
    qed
  qed
qed

lemma grown_enterScope: "grown c (c\<lparr>symbolTable := enterScope (symbolTable c)\<rparr>)"
  using grown_table[OF grown_refl, of c "enterScope (symbolTable c)"]
  by (simp add: enterScope_def)

lemma grown_exitScope: "grown c (do_exitScope c)"
  by (auto simp: grown_def do_exitScope_def exitScope_def)

lemma addSymbol_cases:
  "addSymbol nm ty t = (added, t1, msgs) \<Longrightarrow>
     (added \<and> msgs = [] \<and> next_address t1 = next_address t + 1) \<or>
     (\<not> added \<and> t1 = t \<and> has_error msgs)"
  by (auto simp: addSymbol_def split: if_splits)

lemma compileNode_lowered:
  "compileNode n c = Inr c' \<Longrightarrow> lowered c c'"
  and compileStatements_lowered:
  "compileStatements ss c = Inr c' \<Longrightarrow> lowered c c'"
proof (induction n c and ss c arbitrary: c' and c' rule: compileNode_compileStatements.induct)
  case (1 e c)
  then show ?case by (simp add: compileExpression_lowered)
next
  case (2 tok initializer c)
  show ?case
  proof (cases "declared_type initializer (symbolTable c)")
    case (Inl x)
    with "2.prems" show ?thesis by simp
  next
    case (Inr tyo)
    show ?thesis
    proof (cases tyo)
      case None
      with "2.prems" Inr show ?thesis by (auto intro!: lowered_error grown_refl)
    next
      case (Some varType)
      obtain added t1 msgs where a: "addSymbol (tok_value tok) varType (symbolTable c) = (added, t1, msgs)"
        by (cases "addSymbol (tok_value tok) varType (symbolTable c)") auto
      let ?c1 = "c\<lparr>symbolTable := t1, cerr := cerr c @ msgs\<rparr>"
      show ?thesis
      proof (cases added)
        case False
        then have "failed c (?c1\<lparr>bytecode := []\<rparr>)"
          using addSymbol_cases[OF a] by (auto simp: failed_def)
        with "2.prems" Inr Some a False show ?thesis by (simp add: lowered_def)
      next
        case True
        then have g1: "grown c ?c1"
          using addSymbol_cases[OF a] by (auto simp: grown_def)
        show ?thesis
        proof (cases initializer)
          case None
          with "2.prems" Inr Some a True g1 show ?thesis by (simp add: lowered_def)
        next
          case (Some init)
          with "2.prems" Inr \<open>tyo = Some varType\<close> a True
          obtain c2 where c2: "compileExpression init ?c1 = Inr c2"
            by (auto split: sum.splits)
          have l2: "lowered c c2" using grown_lowered[OF g1 compileExpression_lowered[OF c2]] .
          show ?thesis
          proof (cases "bytecode c2 = []")
            case True
            with "2.prems" Inr \<open>tyo = Some varType\<close> a \<open>added\<close> Some c2 l2 show ?thesis by simp
          next
            case False
            then have "grown c c2" using l2 by (rule lowered_nonempty[rotated])
            with "2.prems" Inr \<open>tyo = Some varType\<close> a \<open>added\<close> Some c2 False show ?thesis
              by (auto split: option.splits intro!: lowered_emit grown_emit lowered_error)
          qed
        qed
      qed
    qed
  qed
next
  case (3 statements c)
  from "3.prems" have "compileStatements statements (c\<lparr>symbolTable := enterScope (symbolTable c)\<rparr>) = Inr c'"
    by simp
  from grown_lowered[OF grown_enterScope "3.IH"[OF this]] show ?case .
next
  case (4 condition thenBranch elseBranch c)
  from "4.prems" obtain c1 where c1: "compileExpression condition c = Inr c1"
    by (auto split: sum.splits)
  have l1: "lowered c c1" using compileExpression_lowered[OF c1] .
  show ?case
  proof (cases "bytecode c1 = []")
    case True
    with "4.prems" c1 l1 show ?thesis by simp
  next
    case ne1: False
    then have g1: "grown c c1" using l1 by (rule lowered_nonempty[rotated])
    let ?c2 = "emit (BytecodeI JUMP_IF_FALSE 0) c1"
    have g2: "grown c ?c2" using g1 by (rule grown_emit)
    from "4.prems" c1 ne1 obtain c3 where c3: "compileNode thenBranch ?c2 = Inr c3"
      by (auto simp: Let_def split: sum.splits)
    have l3: "lowered c c3"
      using grown_lowered[OF g2 "4.IH"(1)[OF c1 ne1 refl refl c3]] .
    show ?thesis
    proof (cases "bytecode c3 = []")
      case True
      with "4.prems" c1 ne1 c3 l3 show ?thesis by (simp add: Let_def)
    next
      case ne3: False
      then have g3: "grown c c3" using l3 by (rule lowered_nonempty[rotated])
      show ?thesis
      proof (cases elseBranch)
        case None
        have "grown c (patch (length (bytecode c1)) (int (length (bytecode c3))) c3)"
          using g3 grown_length[OF g1] by (rule grown_patch)
        with "4.prems" c1 ne1 c3 ne3 None show ?thesis by (simp add: Let_def lowered_def)
      next
        case (Some els)
        let ?c4 = "emit (BytecodeI JUMP 0) c3"
        let ?c5 = "patch (length (bytecode c1)) (int (length (bytecode ?c4))) ?c4"
        have g5: "grown c ?c5"
          using grown_emit[OF g3] grown_length[OF g1] by (rule grown_patch)
        from "4.prems" c1 ne1 c3 ne3 Some obtain c6 where c6: "compileNode els ?c5 = Inr c6"
          by (auto simp: Let_def split: sum.splits)
        have l6: "lowered c c6"
          using grown_lowered[OF g5 "4.IH"(2)[OF c1 ne1 refl refl c3 ne3 Some refl refl refl c6]] .
        show ?thesis
        proof (cases "bytecode c6 = []")
          case True
          with "4.prems" c1 ne1 c3 ne3 Some c6 l6 show ?thesis by (simp add: Let_def)
        next
          case False
          then have g6: "grown c c6" using l6 by (rule lowered_nonempty[rotated])
          have "grown c (patch (length (bytecode c3)) (int (length (bytecode c6))) c6)"
            using g6 grown_length[OF g3] by (rule grown_patch)
          with "4.prems" c1 ne1 c3 ne3 Some c6 False show ?thesis
            by (simp add: Let_def lowered_def)
        qed
      qed
    qed
  qed
next
  case (5 expr c)
  from "5.prems" obtain c1 where c1: "compileExpression expr c = Inr c1"
    by (auto split: sum.splits)
  have l1: "lowered c c1" using compileExpression_lowered[OF c1] .
  show ?case
  proof (cases "bytecode c1 = []")
    case True
    with "5.prems" c1 l1 show ?thesis by simp
  next
    case False
    then have g1: "grown c c1" using l1 by (rule lowered_nonempty[rotated])
    obtain ty w where r: "resolveExpressionType expr (symbolTable c1) = (ty, w)"
      by force
    have "\<not> has_error w" using resolve_no_error[of expr "symbolTable c1"] r by simp
    then have "grown c (c1\<lparr>cerr := cerr c1 @ w\<rparr>)" using g1 by (intro grown_warn)
    with "5.prems" c1 False r show ?thesis
      by (auto simp: Let_def split: if_splits intro!: lowered_emit)
  qed
next
  case (6 c)
  then show ?case by (auto intro!: lowered_error grown_refl)
next
  case (7 c)
  then show ?case by (auto intro!: grown_is_lowered grown_exitScope)
next
  case (8 stmt stmts c)
  from "8.prems" obtain c1 where c1: "compileNode stmt c = Inr c1"
    by (auto split: sum.splits)
  have l1: "lowered c c1" using "8.IH"(1)[OF c1] .
  show ?case
  proof (cases "bytecode c1 = []")
    case True
    with "8.prems" c1 l1 show ?thesis by simp
  next
    case False
    then have g1: "grown c c1" using l1 by (rule lowered_nonempty[rotated])
    from "8.prems" c1 False have "compileStatements stmts c1 = Inr c'" by simp
    from grown_lowered[OF g1 "8.IH"(2)[OF c1 False this]] show ?thesis .
  qed
qed

section \<open>Addresses of the symbol table\<close>

lemma set_type_scopes_Nil: "set_type_scopes nm ty ms = [] \<longleftrightarrow> ms = []"
  by (induction ms) (auto split: option.splits)

lemma table_inv_step: "table_inv s \<Longrightarrow> table_inv (apply_op s op)"
proof (cases s)
  case (Pair t allocated)
  assume inv: "table_inv s"
  show ?thesis
  proof (cases op)
    case EnterScope
    with Pair inv show ?thesis by (simp add: table_inv_def enterScope_def)
  next
    case ExitScope
    with Pair inv show ?thesis
      by (cases "scopes t"; cases "tl (scopes t)") (auto simp: table_inv_def exitScope_def)
  next
    case (AddSymbol nm ty)
    with Pair inv show ?thesis
      by (auto simp: table_inv_def addSymbol_def lookupSymbol_def sorted_wrt_append list_all_iff
          split: if_splits option.splits)
  next
    case (SetSymbolType nm ty)
    with Pair inv show ?thesis
      by (simp add: table_inv_def setSymbolType_def set_type_scopes_Nil)
  qed
qed

lemma table_inv_after: "table_inv (table_after ops)"
proof (induction ops rule: rev_induct)
  case Nil
  show ?case by (simp add: table_after_def table_inv_def SymbolTable_init_def enterScope_def)
next
  case (snoc op ops)
  then show ?case using table_inv_step[of "table_after ops" op] by (simp add: table_after_def)
qed

text \<open>
  Claim C5. In every table \<open>t\<close> that the operations of the symbol table produce from the
  initial one, \<^verbatim>\<open>addSymbol\<close> returns false exactly when the name is already bound in the
  innermost scope, and then leaves the table as it is. When it succeeds, the new binding
  gets the current value of the counter as its address, the counter goes up by one and the
  outer scopes are untouched, so a binding of the same name further out stays. The
  addresses handed out so far are pairwise different and all below the counter, whether
  their scopes still exist or not; and the counter never goes down while a node is
  compiled.
\<close>

theorem addSymbol_fresh_address:
  assumes "table_after ops = (t, allocated)"
  shows "(fst (addSymbol nm ty t) \<longleftrightarrow> hd (scopes t) nm = None) \<and>
         (hd (scopes t) nm = None \<longrightarrow>
            (case addSymbol nm ty t of
               (added, t', msgs) \<Rightarrow>
                 lookupSymbol nm t' = Some \<lparr>name = nm, type = ty, address = next_address t\<rparr> \<and>
                 tl (scopes t') = tl (scopes t) \<and>
                 next_address t' = next_address t + 1)) \<and>
         (hd (scopes t) nm \<noteq> None \<longrightarrow> fst (snd (addSymbol nm ty t)) = t) \<and>
         distinct allocated \<and>
         list_all (\<lambda>a. 0 \<le> a \<and> a < next_address t) allocated \<and>
         (compileNode n c = Inr c' \<longrightarrow>
            next_address (symbolTable c) \<le> next_address (symbolTable c'))"
proof -
  have inv: "table_inv (t, allocated)" using table_inv_after[of ops] assms by simp
  then have ne: "scopes t \<noteq> []" by (simp add: table_inv_def)
  have d: "distinct allocated"
    using inv by (simp add: table_inv_def strict_sorted_iff)
  have m: "compileNode n c = Inr c' \<longrightarrow>
        next_address (symbolTable c) \<le> next_address (symbolTable c')"
    using compileNode_lowered[of n c c'] by (auto simp: lowered_def grown_def failed_def)
  have "(fst (addSymbol nm ty t) \<longleftrightarrow> hd (scopes t) nm = None) \<and>
         (hd (scopes t) nm = None \<longrightarrow>
            (case addSymbol nm ty t of
               (added, t', msgs) \<Rightarrow>
                 lookupSymbol nm t' = Some \<lparr>name = nm, type = ty, address = next_address t\<rparr> \<and>
                 tl (scopes t') = tl (scopes t) \<and>
                 next_address t' = next_address t + 1)) \<and>
         (hd (scopes t) nm \<noteq> None \<longrightarrow> fst (snd (addSymbol nm ty t)) = t) \<and>
         list_all (\<lambda>a. 0 \<le> a \<and> a < next_address t) allocated"
    using inv ne by (cases "scopes t") (auto simp: table_inv_def addSymbol_def lookupSymbol_def)
  with d m show ?thesis by simp
qed

theorem addSymbol_fresh_address_witness:
  "hd (scopes (fst (table_after [AddSymbol ''x'' INTEGER, EnterScope]))) ''x'' = None \<and>
   fst (addSymbol ''x'' FLOAT (fst (table_after [AddSymbol ''x'' INTEGER, EnterScope]))) \<and>
   hd (scopes (fst (table_after [AddSymbol ''x'' INTEGER]))) ''x'' \<noteq> None \<and>
   \<not> fst (addSymbol ''x'' FLOAT (fst (table_after [AddSymbol ''x'' INTEGER]))) \<and>
   snd (table_after
          [AddSymbol ''x'' INTEGER, EnterScope, AddSymbol ''x'' FLOAT, ExitScope,
           AddSymbol ''y'' INTEGER]) = [0, 1, 2] \<and>
   distinct (snd (table_after
          [AddSymbol ''x'' INTEGER, EnterScope, AddSymbol ''x'' FLOAT, ExitScope,
           AddSymbol ''y'' INTEGER])) \<and>
   (\<exists>c'. compileNode two_declarations Compiler_init = Inr c' \<and>
         next_address (symbolTable Compiler_init) \<le> next_address (symbolTable c'))"
proof -
  let ?a = "[AddSymbol ''x'' INTEGER, EnterScope]"
  let ?b = "[AddSymbol ''x'' INTEGER]"
  let ?c = "[AddSymbol ''x'' INTEGER, EnterScope, AddSymbol ''x'' FLOAT, ExitScope,
             AddSymbol ''y'' INTEGER]"
  have ha: "hd (scopes (fst (table_after ?a))) ''x'' = None" by code_simp
  have hb: "hd (scopes (fst (table_after ?b))) ''x'' \<noteq> None" by code_simp
  have hc: "snd (table_after ?c) = [0, 1, 2]" by code_simp
  have "case compileNode two_declarations Compiler_init of Inl x \<Rightarrow> False | Inr c' \<Rightarrow> True"
    by code_simp
  then obtain c' where c': "compileNode two_declarations Compiler_init = Inr c'"
    by (auto split: sum.splits)
  have pa: "table_after ?a = (fst (table_after ?a), snd (table_after ?a))" by simp
  have pb: "table_after ?b = (fst (table_after ?b), snd (table_after ?b))" by simp
  have pc: "table_after ?c = (fst (table_after ?c), snd (table_after ?c))" by simp
  from addSymbol_fresh_address[OF pa, of "''x''" FLOAT] ha
  have ga: "fst (addSymbol ''x'' FLOAT (fst (table_after ?a)))" by simp
  from addSymbol_fresh_address[OF pb, of "''x''" FLOAT] hb
  have gb: "\<not> fst (addSymbol ''x'' FLOAT (fst (table_after ?b)))" by simp
  from addSymbol_fresh_address[OF pc]
  have gc: "distinct (snd (table_after ?c))" by simp
  from addSymbol_fresh_address[OF pc, where n = two_declarations and c = Compiler_init and c' = c'] c'
  have gd: "next_address (symbolTable Compiler_init) \<le> next_address (symbolTable c')" by simp
  show ?thesis using ha hb hc ga gb gc gd c' by blast
qed

section \<open>Short-circuit evaluation\<close>

lemma short_circuit_shape:
  assumes op: "tok_type op = T_AND \<or> tok_type op = T_OR"
    and comp: "compileExpression (BinaryExpression left op right) c = Inr c'"
    and ne: "bytecode c' \<noteq> []"
  shows "\<exists>c1 c3 code_right w.
      compileExpression left (c\<lparr>cerr := cerr c @ w\<rparr>) = Inr c1 \<and>
      compileExpression right (emit (BytecodeI (short_jump (tok_type op)) 0) c1) = Inr c3 \<and>
      bytecode c3 = bytecode c1 @ BytecodeI (short_jump (tok_type op)) 0 # code_right \<and>
      bytecode c' =
        bytecode c1 @
        BytecodeI (short_jump (tok_type op)) (int (length (bytecode c1) + length code_right + 2)) #
        code_right @
        [BytecodeI JUMP (int (length (bytecode c1) + length code_right + 3)),
         BytecodeI PUSH_INT (short_value (tok_type op))]"
proof -
  obtain lt w1 where lt: "operandType left (symbolTable c) = (lt, w1)" by force
  obtain rt w2 where rt: "operandType right (symbolTable c) = (rt, w2)" by force
  let ?c0 = "c\<lparr>cerr := cerr c @ w1 @ w2\<rparr>"
  let ?j = "BytecodeI (short_jump (tok_type op)) 0"
  note prems = comp[simplified compileExpression.simps lt rt Let_def prod.case]
  from prems op ne obtain c1 where c1: "compileExpression left ?c0 = Inr c1"
    by (auto simp: compile_error_def split: if_splits sum.splits)
  from prems op ne c1 have ne1: "bytecode c1 \<noteq> []"
    by (auto simp: compile_error_def split: if_splits sum.splits)
  from prems op ne c1 ne1 obtain c3 where c3: "compileExpression right (emit ?j c1) = Inr c3"
    by (auto simp: compile_error_def short_jump_def split: if_splits sum.splits)
  from prems op ne c1 ne1 c3 have ne3: "bytecode c3 \<noteq> []"
    by (auto simp: compile_error_def short_jump_def split: if_splits sum.splits)
  have "grown (emit ?j c1) c3"
    using compileExpression_lowered[OF c3] ne3 by (rule lowered_nonempty)
  then obtain code_right where cr: "bytecode c3 = bytecode c1 @ ?j # code_right"
    by (auto simp: grown_def emit_def)
  have "bytecode c' =
        bytecode c1 @
        BytecodeI (short_jump (tok_type op)) (int (length (bytecode c1) + length code_right + 2)) #
        code_right @
        [BytecodeI JUMP (int (length (bytecode c1) + length code_right + 3)),
         BytecodeI PUSH_INT (short_value (tok_type op))]"
    using prems op ne c1 ne1 c3 ne3 cr
    by (auto simp: compile_error_def short_jump_def short_value_def emit_def patch_def
        BytecodeI_def list_update_append nth_append ac_simps
        split: if_splits)
  with c1 c3 cr show ?thesis by blast
qed

lemma int_to_double_roundtrip:
  "INT_MIN \<le> n \<Longrightarrow> n \<le> INT_MAX \<Longrightarrow> double_to_int (int_to_double n) = Some n"
  by (simp add: int_to_double_def)

lemma short_circuit_exec:
  assumes op: "opT = T_AND \<or> opT = T_OR"
    and jmp: "prog ! n1 = BytecodeI (short_jump opT) (int pad)"
    and pad: "prog ! pad = BytecodeI PUSH_INT (short_value opT)"
    and len: "n1 < pad" "pad < length prog" "int (length prog) \<le> INT_MAX"
    and pc: "pc vm = int n1" and st: "stack vm = v # rest"
    and sc: "short_circuits opT v"
  shows "exec_n prog 2 vm =
           Some (vm\<lparr>pc := int pad + 1, stack := int_to_double (short_value opT) # rest\<rparr>) \<and>
         executed prog 2 vm = [int n1, int pad]"
proof -
  have d: "double_to_int (int_to_double (int pad)) = Some (int pad)"
    using len by (intro int_to_double_roundtrip) (simp_all add: INT_MIN_def)
  have two: "(2::nat) = Suc (Suc 0)" by simp
  show ?thesis
    using op jmp pad st sc d len pc
    by (auto simp: two step_def BytecodeI_def short_jump_def short_circuits_def)
qed

subsection \<open>The jumps of compiled code go forward\<close>

lemma forward_at_transfer:
  "forward_at xs i \<Longrightarrow> ys ! i = xs ! i \<Longrightarrow> length xs \<le> length ys \<Longrightarrow> forward_at ys i"
  by (auto simp: forward_at_def)

lemma forward_from_append:
  "forward_from k xs \<Longrightarrow> forward_from (length xs) (xs @ ys) \<Longrightarrow> forward_from k (xs @ ys)"
  unfolding forward_from_def
  by (metis forward_at_transfer le_add1 length_append not_le_imp_less nth_append)

lemma forward_from_snoc:
  "forward_from k xs \<Longrightarrow> \<not> is_jump (instruction b) \<Longrightarrow> forward_from k (xs @ [b])"
  by (rule forward_from_append) (auto simp: forward_from_def forward_at_def nth_append)

lemma forward_from_refl: "forward_from (length xs) xs"
  by (auto simp: forward_from_def)

lemma forward_from_mono: "forward_from k xs \<Longrightarrow> k \<le> k' \<Longrightarrow> forward_from k' xs"
  by (simp add: forward_from_def)

lemma not_jump_simps [simp]:
  "\<not> is_jump PUSH_INT" "\<not> is_jump PUSH_FLOAT" "\<not> is_jump PUSH_STRING" "\<not> is_jump LOAD"
  "\<not> is_jump STORE" "\<not> is_jump NOT" "\<not> is_jump NEGATE" "\<not> is_jump HALT"
  "\<not> is_jump PRINT_VALUE" "\<not> is_jump PRINT_STRING"
  "is_jump JUMP" "is_jump JUMP_IF_FALSE" "is_jump JUMP_IF_TRUE"
  by (simp_all add: is_jump_def)

lemma binary_instruction_not_jump: "binary_instruction o1 l r = Inr i \<Longrightarrow> \<not> is_jump i"
  by (auto simp: binary_instruction_def is_jump_def Let_def split: if_splits)

lemma instruction_simps [simp]:
  "instruction (Bytecode0 i) = i" "instruction (BytecodeI i n) = i" "instruction (BytecodeF i f) = i"
  "operand (BytecodeI i n) = int_to_double n"
  by (simp_all add: Bytecode0_def BytecodeI_def BytecodeF_def)

text \<open>The code of a short-circuit operator, from the code of its operands.\<close>

lemma forward_logical:
  assumes l: "forward_from k b1" and r: "forward_from (Suc (length b1)) (b1 @ j0 # cr)"
    and j: "is_jump j"
  shows "forward_from k
           (b1 @ BytecodeI j (int (length b1 + length cr + 2)) # cr @
            [BytecodeI JUMP (int (length b1 + length cr + 3)), BytecodeI PUSH_INT v])"
    (is "forward_from k ?code")
  unfolding forward_from_def
proof (intro allI impI)
  fix i assume i: "k \<le> i \<and> i < length ?code"
  consider "i < length b1" | "i = length b1" | "length b1 < i \<and> i \<le> length b1 + length cr"
    | "i = length b1 + length cr + 1" | "i = length b1 + length cr + 2"
    using i by force
  then show "forward_at ?code i"
  proof cases
    case 1
    then have "forward_at b1 i" using l i by (simp add: forward_from_def)
    then show ?thesis by (rule forward_at_transfer) (use 1 in \<open>simp_all add: nth_append\<close>)
  next
    case 2
    then show ?thesis by (auto simp: forward_at_def nth_append)
  next
    case 3
    then have "forward_at (b1 @ j0 # cr) i" using r by (simp add: forward_from_def)
    then show ?thesis
      by (rule forward_at_transfer) (use 3 in \<open>auto simp: nth_append nth_Cons'\<close>)
  next
    case 4
    then show ?thesis by (auto simp: forward_at_def nth_append nth_Cons')
  next
    case 5
    then show ?thesis by (auto simp: forward_at_def nth_append nth_Cons')
  qed
qed


lemma forward_if_then:
  assumes l: "forward_from k b1" and r: "forward_from (Suc (length b1)) (b1 @ j0 # ct)"
  shows "forward_from k
           (b1 @ BytecodeI JUMP_IF_FALSE (int (length b1 + length ct + 1)) # ct)"
    (is "forward_from k ?code")
  unfolding forward_from_def
proof (intro allI impI)
  fix i assume i: "k \<le> i \<and> i < length ?code"
  consider "i < length b1" | "i = length b1" | "length b1 < i \<and> i \<le> length b1 + length ct"
    using i by force
  then show "forward_at ?code i"
  proof cases
    case 1
    then have "forward_at b1 i" using l i by (simp add: forward_from_def)
    then show ?thesis by (rule forward_at_transfer) (use 1 in \<open>simp_all add: nth_append\<close>)
  next
    case 2
    then show ?thesis by (auto simp: forward_at_def nth_append)
  next
    case 3
    then have "forward_at (b1 @ j0 # ct) i" using r by (simp add: forward_from_def)
    then show ?thesis
      by (rule forward_at_transfer) (use 3 in \<open>auto simp: nth_append nth_Cons'\<close>)
  qed
qed

lemma forward_if_else:
  assumes l: "forward_from k b1" and r: "forward_from (Suc (length b1)) (b1 @ j0 # ct)"
    and e: "forward_from (length b1 + length ct + 2) (b1 @ j1 # ct @ j2 # ce)"
  shows "forward_from k
           (b1 @ BytecodeI JUMP_IF_FALSE (int (length b1 + length ct + 2)) # ct @
            BytecodeI JUMP (int (length b1 + length ct + length ce + 2)) # ce)"
    (is "forward_from k ?code")
  unfolding forward_from_def
proof (intro allI impI)
  fix i assume i: "k \<le> i \<and> i < length ?code"
  consider "i < length b1" | "i = length b1" | "length b1 < i \<and> i \<le> length b1 + length ct"
    | "i = length b1 + length ct + 1" | "length b1 + length ct + 2 \<le> i"
    using i by force
  then show "forward_at ?code i"
  proof cases
    case 1
    then have "forward_at b1 i" using l i by (simp add: forward_from_def)
    then show ?thesis by (rule forward_at_transfer) (use 1 in \<open>simp_all add: nth_append\<close>)
  next
    case 2
    then show ?thesis by (auto simp: forward_at_def nth_append)
  next
    case 3
    then have "forward_at (b1 @ j0 # ct) i" using r by (simp add: forward_from_def)
    then show ?thesis
      by (rule forward_at_transfer) (use 3 in \<open>auto simp: nth_append nth_Cons'\<close>)
  next
    case 4
    then show ?thesis by (auto simp: forward_at_def nth_append nth_Cons')
  next
    case 5
    then have "forward_at (b1 @ j1 # ct @ j2 # ce) i" using e i by (simp add: forward_from_def)
    then show ?thesis
      by (rule forward_at_transfer) (use 5 in \<open>auto simp: nth_append nth_Cons'\<close>)
  qed
qed

lemma bytecode_emit [simp]: "bytecode (emit b c) = bytecode c @ [b]"
  by (simp add: emit_def)

lemma bytecode_compile_error [simp]: "bytecode (compile_error d c) = []"
  by (simp add: compile_error_def)

lemma forward_from_Nil [simp]: "forward_from k []"
  by (simp add: forward_from_def)

lemma forward_from_snoc2:
  assumes "forward_from k xs" "\<not> is_jump (instruction a)" "\<not> is_jump (instruction b)"
  shows "forward_from k (xs @ [a, b])"
proof -
  have "forward_from k ((xs @ [a]) @ [b])"
    using assms by (intro forward_from_snoc)
  then show ?thesis by simp
qed

lemma grown_forward:
  "grown c c1 \<Longrightarrow> forward_from k (bytecode c) \<Longrightarrow>
   forward_from (length (bytecode c)) (bytecode c1) \<Longrightarrow> forward_from k (bytecode c1)"
  by (auto simp: grown_def intro: forward_from_append)

lemma compileExpression_forward:
  "compileExpression e c = Inr c' \<Longrightarrow> forward_from (length (bytecode c)) (bytecode c')"
proof (induction e arbitrary: c c')
  case (Literal tok)
  then show ?case
    by (auto split: if_splits sum.splits intro!: forward_from_snoc forward_from_refl)
next
  case (BooleanLiteral tok)
  then show ?case
    by (auto split: if_splits intro!: forward_from_snoc forward_from_refl)
next
  case (IdentifierExpression tok)
  then show ?case
    by (auto split: option.splits intro!: forward_from_snoc2 forward_from_refl)
next
  case (UnaryExpression op right)
  from UnaryExpression.prems obtain c1 where c1: "compileExpression right c = Inr c1"
    by (auto split: sum.splits)
  have f1: "forward_from (length (bytecode c)) (bytecode c1)" using UnaryExpression.IH[OF c1] .
  with UnaryExpression.prems c1 show ?case
    by (auto split: if_splits intro!: forward_from_snoc)
next
  case (AssignmentExpression tok v)
  show ?case
  proof (cases "lookupSymbol (tok_value tok) (symbolTable c)")
    case None
    with AssignmentExpression.prems show ?thesis by auto
  next
    case (Some s0)
    with AssignmentExpression.prems obtain c1 where c1: "compileExpression v c = Inr c1"
      by (auto split: sum.splits)
    have f1: "forward_from (length (bytecode c)) (bytecode c1)"
      using AssignmentExpression.IH[OF c1] .
    obtain ty w where r: "resolveExpressionType v (symbolTable c1) = (ty, w)"
      by force
    from AssignmentExpression.prems Some c1 r f1 show ?thesis
      by (auto simp: Let_def split: option.splits if_splits intro!: forward_from_snoc2)
  qed
next
  case (BinaryExpression left op right)
  show ?case
  proof (cases "bytecode c' = []")
    case True
    then show ?thesis by simp
  next
    case ne: False
    show ?thesis
    proof (cases "tok_type op = T_AND \<or> tok_type op = T_OR")
      case True
      from short_circuit_shape[OF True BinaryExpression.prems ne]
      obtain c1 c3 code_right w where
        l: "compileExpression left (c\<lparr>cerr := cerr c @ w\<rparr>) = Inr c1" and
        r: "compileExpression right (emit (BytecodeI (short_jump (tok_type op)) 0) c1) = Inr c3" and
        b3: "bytecode c3 = bytecode c1 @ BytecodeI (short_jump (tok_type op)) 0 # code_right" and
        b': "bytecode c' =
            bytecode c1 @
            BytecodeI (short_jump (tok_type op)) (int (length (bytecode c1) + length code_right + 2)) #
            code_right @
            [BytecodeI JUMP (int (length (bytecode c1) + length code_right + 3)),
             BytecodeI PUSH_INT (short_value (tok_type op))]"
        by blast
      have f1: "forward_from (length (bytecode c)) (bytecode c1)"
        using BinaryExpression.IH(1)[OF l] by simp
      have f3: "forward_from (Suc (length (bytecode c1)))
                  (bytecode c1 @ BytecodeI (short_jump (tok_type op)) 0 # code_right)"
        using BinaryExpression.IH(2)[OF r] b3 by simp
      have j: "is_jump (short_jump (tok_type op))" by (simp add: short_jump_def)
      show ?thesis unfolding b' using f1 f3 j by (rule forward_logical)
    next
      case False
      obtain lt w1 where lt: "operandType left (symbolTable c) = (lt, w1)" by force
      obtain rt w2 where rt: "operandType right (symbolTable c) = (rt, w2)" by force
      let ?c0 = "c\<lparr>cerr := cerr c @ w1 @ w2\<rparr>"
      note prems = BinaryExpression.prems[simplified compileExpression.simps lt rt Let_def prod.case]
      from prems False ne obtain i where i: "binary_instruction (tok_type op) lt rt = Inr i"
        by (auto split: sum.splits)
      from prems False ne i obtain c1 where c1: "compileExpression left ?c0 = Inr c1"
        by (auto split: sum.splits)
      from prems False ne i c1 have ne1: "bytecode c1 \<noteq> []"
        by (auto split: sum.splits if_splits)
      from prems False ne i c1 ne1 obtain c2 where c2: "compileExpression right c1 = Inr c2"
        by (auto split: sum.splits)
      from prems False ne i c1 ne1 c2 have ne2: "bytecode c2 \<noteq> []"
        by (auto split: sum.splits if_splits)
      from prems False i c1 ne1 c2 ne2 have c': "c' = emit (Bytecode0 i) c2" by simp
      have f1: "forward_from (length (bytecode c)) (bytecode c1)"
        using BinaryExpression.IH(1)[OF c1] by simp
      have g2: "grown c1 c2" using compileExpression_lowered[OF c2] ne2 by (rule lowered_nonempty)
      have "forward_from (length (bytecode c)) (bytecode c2)"
        using g2 f1 BinaryExpression.IH(2)[OF c2] by (rule grown_forward)
      then show ?thesis unfolding c'
        using binary_instruction_not_jump[OF i] by (auto intro!: forward_from_snoc)
    qed
  qed
qed

lemma compileNode_forward:
  "compileNode n c = Inr c' \<Longrightarrow> forward_from (length (bytecode c)) (bytecode c')"
  and compileStatements_forward:
  "compileStatements ss c = Inr c' \<Longrightarrow> forward_from (length (bytecode c)) (bytecode c')"
proof (induction n c and ss c arbitrary: c' and c' rule: compileNode_compileStatements.induct)
  case (1 e c)
  then show ?case by (simp add: compileExpression_forward)
next
  case (2 tok initializer c)
  show ?case
  proof (cases "bytecode c' = []")
    case True
    then show ?thesis by simp
  next
    case ne: False
    from "2.prems" ne obtain varType where
      d: "declared_type initializer (symbolTable c) = Inr (Some varType)"
      by (auto split: sum.splits option.splits)
    obtain added t1 msgs where
      a: "addSymbol (tok_value tok) varType (symbolTable c) = (added, t1, msgs)"
      by (cases "addSymbol (tok_value tok) varType (symbolTable c)") auto
    let ?c1 = "c\<lparr>symbolTable := t1, cerr := cerr c @ msgs\<rparr>"
    from "2.prems" ne d a have added: added by (auto simp: Let_def split: if_splits)
    show ?thesis
    proof (cases initializer)
      case None
      with "2.prems" d a added show ?thesis by (auto simp: Let_def intro: forward_from_refl)
    next
      case (Some init)
      with "2.prems" d a added obtain c2 where c2: "compileExpression init ?c1 = Inr c2"
        by (auto simp: Let_def split: sum.splits)
      have "forward_from (length (bytecode c)) (bytecode c2)"
        using compileExpression_forward[OF c2] by simp
      with "2.prems" d a added Some c2 show ?thesis
        by (auto simp: Let_def split: option.splits if_splits intro!: forward_from_snoc2)
    qed
  qed
next
  case (3 statements c)
  from "3.prems"
  have "compileStatements statements (c\<lparr>symbolTable := enterScope (symbolTable c)\<rparr>) = Inr c'"
    by simp
  from "3.IH"[OF this] show ?case by simp
next
  case (4 condition thenBranch elseBranch c)
  show ?case
  proof (cases "bytecode c' = []")
    case True
    then show ?thesis by simp
  next
    case ne: False
    from "4.prems" obtain c1 where c1: "compileExpression condition c = Inr c1"
      by (auto split: sum.splits)
    from "4.prems" c1 ne have ne1: "bytecode c1 \<noteq> []" by auto
    let ?j0 = "BytecodeI JUMP_IF_FALSE 0"
    let ?c2 = "emit ?j0 c1"
    from "4.prems" c1 ne1 obtain c3 where c3: "compileNode thenBranch ?c2 = Inr c3"
      by (auto simp: Let_def split: sum.splits)
    from "4.prems" c1 ne1 c3 ne have ne3: "bytecode c3 \<noteq> []" by (auto simp: Let_def)
    have f1: "forward_from (length (bytecode c)) (bytecode c1)"
      using compileExpression_forward[OF c1] .
    have "grown ?c2 c3" using compileNode_lowered[OF c3] ne3 by (rule lowered_nonempty)
    then obtain ct where ct: "bytecode c3 = bytecode c1 @ ?j0 # ct"
      by (auto simp: grown_def)
    have f3: "forward_from (Suc (length (bytecode c1))) (bytecode c1 @ ?j0 # ct)"
      using "4.IH"(1)[OF c1 ne1 refl refl c3] ct by simp
    show ?thesis
    proof (cases elseBranch)
      case None
      with "4.prems" c1 ne1 c3 ne3 ct
      have "bytecode c' =
              bytecode c1 @
              BytecodeI JUMP_IF_FALSE (int (length (bytecode c1) + length ct + 1)) # ct"
        by (auto simp: Let_def patch_def BytecodeI_def list_update_append ac_simps)
      then show ?thesis using forward_if_then[OF f1 f3] by simp
    next
      case (Some els)
      let ?c4 = "emit (BytecodeI JUMP 0) c3"
      let ?c5 = "patch (length (bytecode c1)) (int (length (bytecode ?c4))) ?c4"
      let ?j1 = "BytecodeI JUMP_IF_FALSE (int (length (bytecode c1) + length ct + 2))"
      have b5: "bytecode ?c5 = bytecode c1 @ ?j1 # ct @ [BytecodeI JUMP 0]"
        using ct by (simp add: patch_def BytecodeI_def list_update_append ac_simps)
      from "4.prems" c1 ne1 c3 ne3 Some obtain c6 where c6: "compileNode els ?c5 = Inr c6"
        by (auto simp: Let_def split: sum.splits)
      from "4.prems" c1 ne1 c3 ne3 Some c6 ne have ne6: "bytecode c6 \<noteq> []"
        by (auto simp: Let_def)
      have "grown ?c5 c6" using compileNode_lowered[OF c6] ne6 by (rule lowered_nonempty)
      then obtain ce where ce: "bytecode c6 = bytecode c1 @ ?j1 # ct @ BytecodeI JUMP 0 # ce"
        using b5 by (auto simp: grown_def)
      have f6: "forward_from (length (bytecode c1) + length ct + 2)
                  (bytecode c1 @ ?j1 # ct @ BytecodeI JUMP 0 # ce)"
        using "4.IH"(2)[OF c1 ne1 refl refl c3 ne3 Some refl refl refl c6] b5 ce by simp
      from "4.prems" c1 ne1 c3 ne3 Some c6 ne6 ct ce
      have "bytecode c' =
              bytecode c1 @ ?j1 # ct @
              BytecodeI JUMP (int (length (bytecode c1) + length ct + length ce + 2)) # ce"
        by (auto simp: Let_def patch_def BytecodeI_def list_update_append nth_append ac_simps)
      then show ?thesis using forward_if_else[OF f1 f3 f6] by simp
    qed
  qed
next
  case (5 expr c)
  from "5.prems" obtain c1 where c1: "compileExpression expr c = Inr c1"
    by (auto split: sum.splits)
  have f1: "forward_from (length (bytecode c)) (bytecode c1)"
    using compileExpression_forward[OF c1] .
  obtain ty w where r: "resolveExpressionType expr (symbolTable c1) = (ty, w)"
    by force
  from "5.prems" c1 r f1 show ?case
    by (auto simp: Let_def split: if_splits intro!: forward_from_snoc)
next
  case (6 c)
  then show ?case by auto
next
  case (7 c)
  then show ?case by (auto simp: do_exitScope_def intro: forward_from_refl)
next
  case (8 stmt stmts c)
  from "8.prems" obtain c1 where c1: "compileNode stmt c = Inr c1"
    by (auto split: sum.splits)
  have f1: "forward_from (length (bytecode c)) (bytecode c1)" using "8.IH"(1)[OF c1] .
  show ?case
  proof (cases "bytecode c1 = []")
    case True
    with "8.prems" c1 show ?thesis by simp
  next
    case False
    then have g1: "grown c c1" using compileNode_lowered[OF c1] by (rule lowered_nonempty[rotated])
    from "8.prems" c1 False have r: "compileStatements stmts c1 = Inr c'" by simp
    show ?thesis
    proof (cases "bytecode c' = []")
      case True
      then show ?thesis by simp
    next
      case ne: False
      have g': "grown c1 c'" using compileStatements_lowered[OF r] ne by (rule lowered_nonempty)
      from g' f1 "8.IH"(2)[OF c1 False r] show ?thesis by (rule grown_forward)
    qed
  qed
qed

lemma compile_forward:
  assumes "compile ast c = Inr (prog, c')"
  shows "forward_from 0 prog"
proof (cases ast)
  case None
  with assms show ?thesis by (auto simp: compile_def Let_def)
next
  case (Some node)
  let ?c0 = "c\<lparr>bytecode := [], symbolTable := enterScope (symbolTable c)\<rparr>"
  from assms Some obtain c1 where c1: "compileNode node ?c0 = Inr c1"
    by (auto simp: compile_def Let_def split: sum.splits)
  have "forward_from 0 (bytecode c1)" using compileNode_forward[OF c1] by simp
  then have "forward_from 0 (bytecode (emit (Bytecode0 HALT) (do_exitScope c1)))"
    by (auto simp: do_exitScope_def intro!: forward_from_snoc)
  with assms Some c1 show ?thesis
    by (auto simp: compile_def Let_def split: if_splits)
qed

text \<open>A forward jump moves the program counter forward, and so does every other instruction.\<close>

lemma step_pc:
  "step b (vm\<lparr>pc := p + 1\<rparr>) = Continue vm' \<Longrightarrow>
     pc vm' = p + 1 \<or> (is_jump (instruction b) \<and> double_to_int (operand b) = Some (pc vm'))"
  by (auto simp: step_def binary_op_def vm_error_def Let_def is_jump_def
      split: Instruction.splits list.splits option.splits if_splits)

lemma step_forward:
  assumes f: "forward_at prog (nat p)" and p: "0 \<le> p" "p < int (length prog)"
    and len: "int (length prog) \<le> INT_MAX"
    and s: "step (prog ! nat p) (vm\<lparr>pc := p + 1\<rparr>) = Continue vm'"
  shows "p < pc vm'"
proof -
  from step_pc[OF s] show ?thesis
  proof
    assume "pc vm' = p + 1"
    then show ?thesis by simp
  next
    assume j: "is_jump (instruction (prog ! nat p)) \<and>
               double_to_int (operand (prog ! nat p)) = Some (pc vm')"
    with f obtain t where t: "operand (prog ! nat p) = int_to_double t" "int (nat p) < t"
      "t \<le> int (length prog)"
      by (auto simp: forward_at_def)
    have "double_to_int (int_to_double t) = Some t"
      using t len p by (intro int_to_double_roundtrip) (simp_all add: INT_MIN_def)
    with j t p show ?thesis by simp
  qed
qed

lemma executed_forward:
  assumes f: "forward_from 0 prog" and len: "int (length prog) \<le> INT_MAX"
  shows "\<forall>i\<in>set (executed prog n vm). pc vm \<le> i"
proof (induction n arbitrary: vm)
  case 0
  then show ?case by simp
next
  case (Suc n)
  show ?case
  proof (cases "0 \<le> pc vm \<and> pc vm < int (length prog)")
    case False
    then show ?thesis by auto
  next
    case True
    then have "nat (pc vm) < length prog" by linarith
    then have fa: "forward_at prog (nat (pc vm))" using f by (simp add: forward_from_def)
    show ?thesis
    proof (cases "step (prog ! nat (pc vm)) (vm\<lparr>pc := pc vm + 1\<rparr>)")
      case (Continue vm2)
      have "pc vm < pc vm2" using fa True len Continue by (intro step_forward) auto
      with Suc.IH[of vm2] True Continue show ?thesis by auto
    next
      case (Return v vm2)
      with True show ?thesis by simp
    next
      case Undefined
      with True show ?thesis by simp
    qed
  qed
qed

lemma executed_add:
  "executed prog (m + n) vm =
     executed prog m vm @
     (case exec_n prog m vm of None \<Rightarrow> [] | Some vm' \<Rightarrow> executed prog n vm')"
proof (induction m arbitrary: vm)
  case 0
  then show ?case by simp
next
  case (Suc m)
  then show ?case by (auto split: step_result.splits)
qed

lemma executed_prefix:
  "set (executed prog m vm) \<subseteq> set (executed prog (m + n) vm)"
  by (simp add: executed_add)

text \<open>
  Claim C1. The code of a compiled \<^verbatim>\<open>&&\<close> or \<^verbatim>\<open>||\<close> is the code of the left operand,
  a conditional jump, the code of the right operand, a jump over the landing pad and the
  landing pad, which pushes 0 for \<^verbatim>\<open>&&\<close> and 1 for \<^verbatim>\<open>||\<close>. In every program that holds
  this code, when the machine stands at the conditional jump with the value of the left
  operand on top of the stack, and that value is false for \<^verbatim>\<open>&&\<close> (true for \<^verbatim>\<open>||\<close>),
  the next two iterations execute the conditional jump and the landing pad: memory, string
  pool and output are as before, the value of the left operand is replaced by 0 (by 1 for
  \<^verbatim>\<open>||\<close>), and the machine stands behind the code of the expression. If the jumps of
  the program go forward, no instruction of the right operand is executed from there on,
  however long the machine runs; and the jumps of every program that \<^verbatim>\<open>compile\<close> returns
  go forward.
\<close>

theorem short_circuit_skips_right_operand:
  assumes "tok_type op = T_AND \<or> tok_type op = T_OR"
    and "compileExpression (BinaryExpression left op right) c = Inr c'"
    and "bytecode c' \<noteq> []"
  shows "(\<exists>c1 c3 code_right w.
      compileExpression left (c\<lparr>cerr := cerr c @ w\<rparr>) = Inr c1 \<and>
      compileExpression right (emit (BytecodeI (short_jump (tok_type op)) 0) c1) = Inr c3 \<and>
      bytecode c3 = bytecode c1 @ BytecodeI (short_jump (tok_type op)) 0 # code_right \<and>
      bytecode c' =
        bytecode c1 @
        BytecodeI (short_jump (tok_type op)) (int (length (bytecode c1) + length code_right + 2)) #
        code_right @
        [BytecodeI JUMP (int (length (bytecode c1) + length code_right + 3)),
         BytecodeI PUSH_INT (short_value (tok_type op))] \<and>
      (\<forall>prog (vm::VM) v rest.
         length (bytecode c') \<le> length prog \<and> int (length prog) \<le> INT_MAX \<and>
         (\<forall>i. length (bytecode c1) \<le> i \<and> i < length (bytecode c') \<longrightarrow>
              prog ! i = bytecode c' ! i) \<and>
         pc vm = int (length (bytecode c1)) \<and> stack vm = v # rest \<and>
         short_circuits (tok_type op) v \<longrightarrow>
           exec_n prog 2 vm =
             Some (vm\<lparr>pc := int (length (bytecode c')),
                      stack := int_to_double (short_value (tok_type op)) # rest\<rparr>) \<and>
           executed prog 2 vm =
             [int (length (bytecode c1)), int (length (bytecode c1) + length code_right + 2)] \<and>
           (forward_from 0 prog \<longrightarrow>
              (\<forall>n. \<forall>i\<in>set (executed prog n vm).
                 \<not> (int (length (bytecode c1)) < i \<and>
                    i \<le> int (length (bytecode c1) + length code_right)))))) \<and>
    (\<forall>ast c0 prog cf. compile ast c0 = Inr (prog, cf) \<longrightarrow> forward_from 0 prog)"
proof -
  from short_circuit_shape[OF assms] obtain c1 c3 code_right w where
    l: "compileExpression left (c\<lparr>cerr := cerr c @ w\<rparr>) = Inr c1" and
    r: "compileExpression right (emit (BytecodeI (short_jump (tok_type op)) 0) c1) = Inr c3" and
    b3: "bytecode c3 = bytecode c1 @ BytecodeI (short_jump (tok_type op)) 0 # code_right" and
    b': "bytecode c' =
        bytecode c1 @
        BytecodeI (short_jump (tok_type op)) (int (length (bytecode c1) + length code_right + 2)) #
        code_right @
        [BytecodeI JUMP (int (length (bytecode c1) + length code_right + 3)),
         BytecodeI PUSH_INT (short_value (tok_type op))]"
    by blast
  let ?n1 = "length (bytecode c1)"
  let ?pad = "length (bytecode c1) + length code_right + 2"
  have len': "length (bytecode c') = ?pad + 1" using b' by simp
  have jmp: "bytecode c' ! ?n1 = BytecodeI (short_jump (tok_type op)) (int ?pad)"
    by (subst b') (simp add: nth_append)
  have padi: "bytecode c' ! ?pad = BytecodeI PUSH_INT (short_value (tok_type op))"
    by (subst b') (simp add: nth_append nth_Cons')
  have ex: "\<forall>prog (vm::VM) v rest.
         length (bytecode c') \<le> length prog \<and> int (length prog) \<le> INT_MAX \<and>
         (\<forall>i. length (bytecode c1) \<le> i \<and> i < length (bytecode c') \<longrightarrow>
              prog ! i = bytecode c' ! i) \<and>
         pc vm = int (length (bytecode c1)) \<and> stack vm = v # rest \<and>
         short_circuits (tok_type op) v \<longrightarrow>
           exec_n prog 2 vm =
             Some (vm\<lparr>pc := int (length (bytecode c')),
                      stack := int_to_double (short_value (tok_type op)) # rest\<rparr>) \<and>
           executed prog 2 vm = [int ?n1, int ?pad] \<and>
           (forward_from 0 prog \<longrightarrow>
              (\<forall>n. \<forall>i\<in>set (executed prog n vm).
                 \<not> (int ?n1 < i \<and> i \<le> int (length (bytecode c1) + length code_right))))"
  proof (intro allI impI)
    fix prog and vm :: VM and v rest
    assume h: "length (bytecode c') \<le> length prog \<and> int (length prog) \<le> INT_MAX \<and>
         (\<forall>i. length (bytecode c1) \<le> i \<and> i < length (bytecode c') \<longrightarrow>
              prog ! i = bytecode c' ! i) \<and>
         pc vm = int (length (bytecode c1)) \<and> stack vm = v # rest \<and>
         short_circuits (tok_type op) v"
    let ?vm2 = "vm\<lparr>pc := int ?pad + 1,
                    stack := int_to_double (short_value (tok_type op)) # rest\<rparr>"
    have p1: "prog ! ?n1 = BytecodeI (short_jump (tok_type op)) (int ?pad)"
      using h jmp len' by simp
    have p2: "prog ! ?pad = BytecodeI PUSH_INT (short_value (tok_type op))"
      using h padi len' by simp
    have two: "exec_n prog 2 vm = Some ?vm2 \<and> executed prog 2 vm = [int ?n1, int ?pad]"
      using h len' by (intro short_circuit_exec[OF assms(1) p1 p2]) auto
    have rest: "\<forall>n. \<forall>i\<in>set (executed prog n vm).
                 \<not> (int ?n1 < i \<and> i \<le> int (length (bytecode c1) + length code_right))"
      if f: "forward_from 0 prog"
    proof (intro allI ballI)
      fix n i assume i: "i \<in> set (executed prog n vm)"
      have "set (executed prog n vm) \<subseteq> set (executed prog (n + 2) vm)"
        by (rule executed_prefix)
      also have "executed prog (n + 2) vm = executed prog (2 + n) vm"
        by (simp add: add.commute)
      also have "\<dots> = [int ?n1, int ?pad] @ executed prog n ?vm2"
      proof -
        have "executed prog (2 + n) vm =
                executed prog 2 vm @
                (case exec_n prog 2 vm of None \<Rightarrow> [] | Some vm' \<Rightarrow> executed prog n vm')"
          by (rule executed_add)
        then show ?thesis by (simp only: two[THEN conjunct1] two[THEN conjunct2] option.case)
      qed
      finally have "i = int ?n1 \<or> i = int ?pad \<or> i \<in> set (executed prog n ?vm2)"
        using i by auto
      moreover have "int ?pad + 1 \<le> i" if "i \<in> set (executed prog n ?vm2)"
        using executed_forward[OF f, of n ?vm2] h that by auto
      ultimately show "\<not> (int ?n1 < i \<and> i \<le> int (length (bytecode c1) + length code_right))"
        by auto
    qed
    from two rest show "exec_n prog 2 vm =
             Some (vm\<lparr>pc := int (length (bytecode c')),
                      stack := int_to_double (short_value (tok_type op)) # rest\<rparr>) \<and>
           executed prog 2 vm = [int ?n1, int ?pad] \<and>
           (forward_from 0 prog \<longrightarrow>
              (\<forall>n. \<forall>i\<in>set (executed prog n vm).
                 \<not> (int ?n1 < i \<and> i \<le> int (length (bytecode c1) + length code_right))))"
      using len' by (simp add: add.commute)
  qed
  have fw: "\<forall>ast c0 prog cf. compile ast c0 = Inr (prog, cf) \<longrightarrow> forward_from 0 prog"
    using compile_forward by blast
  from l r b3 b' ex have "\<exists>c1 c3 code_right w.
      compileExpression left (c\<lparr>cerr := cerr c @ w\<rparr>) = Inr c1 \<and>
      compileExpression right (emit (BytecodeI (short_jump (tok_type op)) 0) c1) = Inr c3 \<and>
      bytecode c3 = bytecode c1 @ BytecodeI (short_jump (tok_type op)) 0 # code_right \<and>
      bytecode c' =
        bytecode c1 @
        BytecodeI (short_jump (tok_type op)) (int (length (bytecode c1) + length code_right + 2)) #
        code_right @
        [BytecodeI JUMP (int (length (bytecode c1) + length code_right + 3)),
         BytecodeI PUSH_INT (short_value (tok_type op))] \<and>
      (\<forall>prog (vm::VM) v rest.
         length (bytecode c') \<le> length prog \<and> int (length prog) \<le> INT_MAX \<and>
         (\<forall>i. length (bytecode c1) \<le> i \<and> i < length (bytecode c') \<longrightarrow>
              prog ! i = bytecode c' ! i) \<and>
         pc vm = int (length (bytecode c1)) \<and> stack vm = v # rest \<and>
         short_circuits (tok_type op) v \<longrightarrow>
           exec_n prog 2 vm =
             Some (vm\<lparr>pc := int (length (bytecode c')),
                      stack := int_to_double (short_value (tok_type op)) # rest\<rparr>) \<and>
           executed prog 2 vm =
             [int (length (bytecode c1)), int (length (bytecode c1) + length code_right + 2)] \<and>
           (forward_from 0 prog \<longrightarrow>
              (\<forall>n. \<forall>i\<in>set (executed prog n vm).
                 \<not> (int (length (bytecode c1)) < i \<and>
                    i \<le> int (length (bytecode c1) + length code_right)))))"
    by blast
  with fw show ?thesis by (rule conjI[rotated])
qed

theorem short_circuit_skips_right_operand_witness:
  "(case compile (Some and_only) Compiler_init of
      Inl x \<Rightarrow> False
    | Inr (prog, cf) \<Rightarrow>
        prog =
          [BytecodeI PUSH_INT 0, BytecodeI JUMP_IF_FALSE 4, BytecodeI PUSH_INT 1,
           BytecodeI JUMP 5, BytecodeI PUSH_INT 0, Bytecode0 HALT] \<and>
        exec_n prog 2
          \<lparr>stack = [Finite 0], memory = [], vm_string_literals = [], pc = 1, cout = [],
           vm_cerr = []\<rparr> =
          Some \<lparr>stack = [Finite 0], memory = [], vm_string_literals = [], pc = 5, cout = [],
                vm_cerr = []\<rparr> \<and>
        executed prog 2
          \<lparr>stack = [Finite 0], memory = [], vm_string_literals = [], pc = 1, cout = [],
           vm_cerr = []\<rparr> = [1, 4] \<and>
        2 \<notin> set (executed prog 10
          \<lparr>stack = [Finite 0], memory = [], vm_string_literals = [], pc = 1, cout = [],
           vm_cerr = []\<rparr>)) \<and>
   (case compile (Some and_assign) Compiler_init of
      Inl x \<Rightarrow> False
    | Inr (prog, c') \<Rightarrow>
        (case run prog (string_literals c') of
           Some (Returned v vm) \<Rightarrow> v = Finite 0 \<and> memory vm = [Finite 1] \<and> vm_cerr vm = []
         | _ \<Rightarrow> False)) \<and>
   (case compile (Some or_assign) Compiler_init of
      Inl x \<Rightarrow> False
    | Inr (prog, c') \<Rightarrow>
        (case run prog (string_literals c') of
           Some (Returned v vm) \<Rightarrow> v = Finite 1 \<and> memory vm = [Finite 1] \<and> vm_cerr vm = []
         | _ \<Rightarrow> False))"
proof -
  let ?op = "mk_token T_AND ''&&''"
  let ?l = "BooleanLiteral (mk_token T_FALSE ''false'')"
  let ?r = "BooleanLiteral (mk_token T_TRUE ''true'')"
  let ?c0 = "Compiler_init\<lparr>bytecode := [], symbolTable := enterScope (symbolTable Compiler_init)\<rparr>"
  let ?code = "[BytecodeI PUSH_INT 0, BytecodeI JUMP_IF_FALSE 4, BytecodeI PUSH_INT 1,
                BytecodeI JUMP 5, BytecodeI PUSH_INT 0]"
  let ?prog = "[BytecodeI PUSH_INT 0, BytecodeI JUMP_IF_FALSE 4, BytecodeI PUSH_INT 1,
                BytecodeI JUMP 5, BytecodeI PUSH_INT 0, Bytecode0 HALT]"
  let ?vm = "\<lparr>stack = [Finite 0], memory = [], vm_string_literals = [], pc = 1, cout = [],
              vm_cerr = []\<rparr>"
  have "case compile (Some and_only) Compiler_init of
          Inl x \<Rightarrow> False | Inr (prog, cf) \<Rightarrow> prog = ?prog"
    by code_simp
  then obtain cf where comp: "compile (Some and_only) Compiler_init = Inr (?prog, cf)"
    by (auto split: sum.splits)
  have "case compileExpression (BinaryExpression ?l ?op ?r) ?c0 of
          Inl x \<Rightarrow> False | Inr c' \<Rightarrow> bytecode c' = ?code"
    by code_simp
  then obtain c' where c': "compileExpression (BinaryExpression ?l ?op ?r) ?c0 = Inr c'"
    and bc: "bytecode c' = ?code"
    by (auto split: sum.splits)
  have t: "tok_type ?op = T_AND \<or> tok_type ?op = T_OR" by (simp add: mk_token_def)
  have ne: "bytecode c' \<noteq> []" using bc by simp
  have fw: "forward_from 0 ?prog"
    using short_circuit_skips_right_operand[OF t c' ne, THEN conjunct2, rule_format, OF comp] .
  from short_circuit_skips_right_operand[OF t c' ne, THEN conjunct1]
  obtain c1 c3 code_right w where
    l: "compileExpression ?l (?c0\<lparr>cerr := cerr ?c0 @ w\<rparr>) = Inr c1" and
    b': "bytecode c' =
        bytecode c1 @
        BytecodeI (short_jump (tok_type ?op)) (int (length (bytecode c1) + length code_right + 2)) #
        code_right @
        [BytecodeI JUMP (int (length (bytecode c1) + length code_right + 3)),
         BytecodeI PUSH_INT (short_value (tok_type ?op))]" and
    ex: "\<forall>prog (vm::VM) v rest.
         length (bytecode c') \<le> length prog \<and> int (length prog) \<le> INT_MAX \<and>
         (\<forall>i. length (bytecode c1) \<le> i \<and> i < length (bytecode c') \<longrightarrow>
              prog ! i = bytecode c' ! i) \<and>
         pc vm = int (length (bytecode c1)) \<and> stack vm = v # rest \<and>
         short_circuits (tok_type ?op) v \<longrightarrow>
           exec_n prog 2 vm =
             Some (vm\<lparr>pc := int (length (bytecode c')),
                      stack := int_to_double (short_value (tok_type ?op)) # rest\<rparr>) \<and>
           executed prog 2 vm =
             [int (length (bytecode c1)), int (length (bytecode c1) + length code_right + 2)] \<and>
           (forward_from 0 prog \<longrightarrow>
              (\<forall>n. \<forall>i\<in>set (executed prog n vm).
                 \<not> (int (length (bytecode c1)) < i \<and>
                    i \<le> int (length (bytecode c1) + length code_right))))"
    by blast
  have n1: "length (bytecode c1) = 1"
    using l by (auto simp: emit_def Compiler_init_def mk_token_def)
  have n2: "length code_right = 1"
  proof -
    have "length (bytecode c') = 5" using bc by simp
    moreover have "length (bytecode c') = length (bytecode c1) + length code_right + 3"
      by (subst b') simp
    ultimately show ?thesis using n1 by simp
  qed
  have sc: "short_circuits (tok_type ?op) (Finite 0)"
    by (simp add: short_circuits_def mk_token_def feq_def)
  have pr: "?prog = bytecode c' @ [Bytecode0 HALT]" using bc by simp
  have same: "\<forall>i. length (bytecode c1) \<le> i \<and> i < length (bytecode c') \<longrightarrow>
              ?prog ! i = bytecode c' ! i"
    unfolding pr by (simp add: nth_append)
  have hyp: "length (bytecode c') \<le> length ?prog \<and>
         int (length ?prog) \<le> INT_MAX \<and>
         (\<forall>i. length (bytecode c1) \<le> i \<and> i < length (bytecode c') \<longrightarrow>
              ?prog ! i = bytecode c' ! i) \<and>
         pc ?vm = int (length (bytecode c1)) \<and> stack ?vm = Finite 0 # [] \<and>
         short_circuits (tok_type ?op) (Finite 0)"
    using n1 sc bc same by (simp add: INT_MAX_def)
  note res = ex[rule_format, OF hyp]
  from res
  have run2: "exec_n ?prog 2 ?vm =
      Some \<lparr>stack = [Finite 0], memory = [], vm_string_literals = [], pc = 5, cout = [],
            vm_cerr = []\<rparr>"
    and ex2: "executed ?prog 2 ?vm = [1, 4]"
    using n1 n2 bc by (simp_all add: short_value_def mk_token_def int_to_double_def)
  from res fw have "\<forall>n. \<forall>i\<in>set (executed ?prog n ?vm).
                 \<not> (int (length (bytecode c1)) < i \<and>
                    i \<le> int (length (bytecode c1) + length code_right))"
    by blast
  then have "\<forall>i\<in>set (executed ?prog 10 ?vm). \<not> (1 < i \<and> i \<le> 2)"
    using n1 n2 by (auto simp del: executed.simps)
  then have never: "2 \<notin> set (executed ?prog 10 ?vm)" by (auto simp del: executed.simps)
  have a: "case compile (Some and_assign) Compiler_init of
      Inl x \<Rightarrow> False
    | Inr (prog, c') \<Rightarrow>
        (case run prog (string_literals c') of
           Some (Returned v vm) \<Rightarrow> v = Finite 0 \<and> memory vm = [Finite 1] \<and> vm_cerr vm = []
         | _ \<Rightarrow> False)"
    by code_simp
  have o: "case compile (Some or_assign) Compiler_init of
      Inl x \<Rightarrow> False
    | Inr (prog, c') \<Rightarrow>
        (case run prog (string_literals c') of
           Some (Returned v vm) \<Rightarrow> v = Finite 1 \<and> memory vm = [Finite 1] \<and> vm_cerr vm = []
         | _ \<Rightarrow> False)"
    by code_simp
  have first: "case compile (Some and_only) Compiler_init of
      Inl x \<Rightarrow> False
    | Inr (prog, cf) \<Rightarrow>
        prog = ?prog \<and>
        exec_n prog 2 ?vm =
          Some \<lparr>stack = [Finite 0], memory = [], vm_string_literals = [], pc = 5, cout = [],
                vm_cerr = []\<rparr> \<and>
        executed prog 2 ?vm = [1, 4] \<and>
        2 \<notin> set (executed prog 10 ?vm)"
    unfolding comp using run2 ex2 never by (simp del: exec_n.simps executed.simps)
  from first a o show ?thesis by (intro conjI)
qed

section \<open>Lowering an expression keeps the addresses of the table\<close>

lemma set_type_scopes_view:
  "map (\<lambda>scope nm. map_option address (scope nm)) (set_type_scopes nm ty ms) =
   map (\<lambda>scope nm. map_option address (scope nm)) ms"
  by (induction ms) (auto split: option.splits)

lemma setSymbolType_view [simp]: "address_view (setSymbolType nm ty t) = address_view t"
  by (simp add: address_view_def setSymbolType_def set_type_scopes_view)

lemma lookup_scopes_view:
  "map (\<lambda>scope nm. map_option address (scope nm)) ms =
   map (\<lambda>scope nm. map_option address (scope nm)) ms' \<Longrightarrow>
   map_option address (lookup_scopes nm ms) = map_option address (lookup_scopes nm ms')"
proof (induction ms arbitrary: ms')
  case Nil
  then show ?case by simp
next
  case (Cons m ms)
  then obtain m' ms1 where ms': "ms' = m' # ms1" by (cases ms') auto
  with Cons.prems have hd: "map_option address (m nm) = map_option address (m' nm)"
    and tl: "map (\<lambda>scope nm. map_option address (scope nm)) ms =
             map (\<lambda>scope nm. map_option address (scope nm)) ms1"
    by (auto dest: fun_cong)
  show ?case using hd Cons.IH[OF tl] ms' by (auto split: option.splits)
qed

lemma lookupSymbol_view:
  "address_view t = address_view t' \<Longrightarrow>
   map_option address (lookupSymbol nm t) = map_option address (lookupSymbol nm t')"
  by (auto simp: address_view_def lookupSymbol_def intro: lookup_scopes_view)

lemma view_simps [simp]:
  "symbolTable (emit b c) = symbolTable c"
  "symbolTable (compile_error d c) = symbolTable c"
  "symbolTable (patch i t c) = symbolTable c"
  by (simp_all add: emit_def compile_error_def patch_def)

lemma compileExpression_view:
  "compileExpression e c = Inr c' \<Longrightarrow>
   address_view (symbolTable c') = address_view (symbolTable c)"
proof (induction e arbitrary: c c')
  case (Literal tok)
  then show ?case by (auto split: if_splits sum.splits)
next
  case (BooleanLiteral tok)
  then show ?case by (auto split: if_splits)
next
  case (IdentifierExpression tok)
  then show ?case by (auto split: option.splits)
next
  case (UnaryExpression op right)
  then show ?case by (auto split: sum.splits if_splits)
next
  case (AssignmentExpression tok v)
  then show ?case
    by (fastforce simp: Let_def split: option.splits sum.splits if_splits prod.splits)
next
  case (BinaryExpression left op right)
  obtain lt w1 where lt: "operandType left (symbolTable c) = (lt, w1)" by force
  obtain rt w2 where rt: "operandType right (symbolTable c) = (rt, w2)" by force
  note prems = BinaryExpression.prems[simplified compileExpression.simps lt rt Let_def prod.case]
  have l: "\<And>c0 c1. compileExpression left c0 = Inr c1 \<Longrightarrow>
             address_view (symbolTable c1) = address_view (symbolTable c0)"
    using BinaryExpression.IH(1) .
  have r: "\<And>c0 c1. compileExpression right c0 = Inr c1 \<Longrightarrow>
             address_view (symbolTable c1) = address_view (symbolTable c0)"
    using BinaryExpression.IH(2) .
  from prems show ?case
    by (auto split: if_splits sum.splits dest!: l r)
qed

section \<open>A semantic error discards the whole program\<close>

subsection \<open>Trees on which the compiler returns\<close>

lemma lookupSymbol_kept:
  assumes "compileExpression e c = Inr c'" and "lookupSymbol nm (symbolTable c) = Some s"
  shows "\<exists>s'. lookupSymbol nm (symbolTable c') = Some s'"
proof -
  have "map_option address (lookupSymbol nm (symbolTable c')) =
        map_option address (lookupSymbol nm (symbolTable c))"
    using compileExpression_view[OF assms(1)] by (rule lookupSymbol_view)
  with assms(2) show ?thesis by (cases "lookupSymbol nm (symbolTable c')") auto
qed

lemma compileExpression_returns:
  "readable_expr e \<Longrightarrow> \<exists>c'. compileExpression e c = Inr c'"
proof (induction e arbitrary: c)
  case (Literal tok)
  then show ?case by (auto simp: readable_def split: sum.splits if_splits)
next
  case (BooleanLiteral tok)
  then show ?case by simp
next
  case (IdentifierExpression tok)
  then show ?case by (auto split: option.splits)
next
  case (UnaryExpression op right)
  then obtain c1 where "compileExpression right c = Inr c1" by fastforce
  then show ?case by simp
next
  case (AssignmentExpression tok v)
  then obtain c1 where c1: "compileExpression v c = Inr c1" by fastforce
  show ?case
  proof (cases "lookupSymbol (tok_value tok) (symbolTable c)")
    case None
    then show ?thesis by simp
  next
    case (Some s)
    from lookupSymbol_kept[OF c1 Some] obtain s' where
      "lookupSymbol (tok_value tok) (symbolTable c1) = Some s'" by blast
    with Some c1 show ?thesis
      by (auto simp: Let_def split: prod.splits)
  qed
next
  case (BinaryExpression left op right)
  have l: "\<And>c0. \<exists>c1. compileExpression left c0 = Inr c1"
    using BinaryExpression by simp
  have r: "\<And>c0. \<exists>c1. compileExpression right c0 = Inr c1"
    using BinaryExpression by simp
  obtain lt w1 where lt: "operandType left (symbolTable c) = (lt, w1)" by force
  obtain rt w2 where rt: "operandType right (symbolTable c) = (rt, w2)" by force
  let ?c0 = "c\<lparr>cerr := cerr c @ w1 @ w2\<rparr>"
  obtain c1 where c1: "compileExpression left ?c0 = Inr c1" using l by blast
  obtain c2 where c2: "compileExpression right c1 = Inr c2" using r by blast
  obtain c3 where c3: "compileExpression right (emit (BytecodeI JUMP_IF_FALSE 0) c1) = Inr c3"
    using r by blast
  obtain c4 where c4: "compileExpression right (emit (BytecodeI JUMP_IF_TRUE 0) c1) = Inr c4"
    using r by blast
  show ?case
    by (simp add: lt rt Let_def c1 c2 c3 c4 split: sum.splits)
qed

lemma compileNode_returns:
  "returning n \<Longrightarrow> \<exists>c'. compileNode n c = Inr c'"
  and compileStatements_returns:
  "list_all returning ss \<Longrightarrow> \<exists>c'. compileStatements ss c = Inr c'"
proof (induction n c and ss c rule: compileNode_compileStatements.induct)
  case (1 e c)
  then show ?case by (simp add: compileExpression_returns)
next
  case (2 tok initializer c)
  show ?case
  proof (cases initializer)
    case None
    then show ?thesis
      by (auto simp: declared_type_def Let_def split: prod.splits)
  next
    case (Some init)
    with "2.prems" have re: "readable_expr init"
      and ca: "getType init = IDENTIFIER_EXPRESSION \<longrightarrow> is_identifier init"
      by simp_all
    from ca Some have "\<exists>tyo. declared_type initializer (symbolTable c) = Inr tyo"
      by (cases init) (auto simp: declared_type_def split: option.splits)
    then obtain tyo where d: "declared_type initializer (symbolTable c) = Inr tyo" by blast
    show ?thesis
    proof (cases tyo)
      case None
      with d show ?thesis by simp
    next
      case (Some varType)
      obtain added t1 msgs where
        a: "addSymbol (tok_value tok) varType (symbolTable c) = (added, t1, msgs)"
        by (cases "addSymbol (tok_value tok) varType (symbolTable c)") auto
      obtain c2 where
        "compileExpression init (c\<lparr>symbolTable := t1, cerr := cerr c @ msgs\<rparr>) = Inr c2"
        using compileExpression_returns[OF re] by blast
      with d Some a \<open>initializer = Some init\<close> show ?thesis
        by (auto simp: Let_def split: option.splits)
    qed
  qed
next
  case (3 statements c)
  then show ?case by simp
next
  case (4 condition thenBranch elseBranch c)
  from "4.prems" obtain c1 where c1: "compileExpression condition c = Inr c1"
    using compileExpression_returns by fastforce
  show ?case
  proof (cases "bytecode c1 = []")
    case True
    with c1 show ?thesis by simp
  next
    case ne1: False
    let ?c2 = "emit (BytecodeI JUMP_IF_FALSE 0) c1"
    from "4.IH"(1)[OF c1 ne1 refl refl] "4.prems"
    obtain c3 where c3: "compileNode thenBranch ?c2 = Inr c3" by auto
    show ?thesis
    proof (cases "bytecode c3 = []")
      case True
      with c1 ne1 c3 show ?thesis by (simp add: Let_def)
    next
      case ne3: False
      show ?thesis
      proof (cases elseBranch)
        case None
        with c1 ne1 c3 ne3 show ?thesis by (simp add: Let_def)
      next
        case (Some els)
        from "4.IH"(2)[OF c1 ne1 refl refl c3 ne3 Some refl refl refl] "4.prems" Some
        obtain c6 where
          "compileNode els (patch (length (bytecode c1))
             (int (length (bytecode (emit (BytecodeI JUMP 0) c3))))
             (emit (BytecodeI JUMP 0) c3)) = Inr c6"
          by auto
        with c1 ne1 c3 ne3 Some show ?thesis by (simp add: Let_def)
      qed
    qed
  qed
next
  case (5 expr c)
  then obtain c1 where "compileExpression expr c = Inr c1"
    using compileExpression_returns by fastforce
  then show ?case by (auto simp: Let_def split: prod.splits)
next
  case (6 c)
  then show ?case by simp
next
  case (7 c)
  then show ?case by simp
next
  case (8 stmt stmts c)
  from "8.prems" "8.IH"(1) obtain c1 where c1: "compileNode stmt c = Inr c1" by auto
  show ?case
  proof (cases "bytecode c1 = []")
    case True
    with c1 show ?thesis by simp
  next
    case False
    from "8.IH"(2)[OF c1 False] "8.prems" obtain c' where "compileStatements stmts c1 = Inr c'"
      by auto
    with c1 False show ?thesis by simp
  qed
qed

lemma compile_returns:
  assumes "case ast of None \<Rightarrow> True | Some node \<Rightarrow> returning node"
  shows "\<exists>prog c'. compile ast c = Inr (prog, c')"
proof (cases ast)
  case None
  then show ?thesis by (simp add: compile_def Let_def)
next
  case (Some node)
  with assms obtain c1 where
    "compileNode node (c\<lparr>bytecode := [], symbolTable := enterScope (symbolTable c)\<rparr>) = Inr c1"
    using compileNode_returns by fastforce
  with Some show ?thesis by (simp add: compile_def Let_def)
qed

text \<open>
  The condition on declarations cannot be dropped: on \<^verbatim>\<open>var y = -x;\<close> the cast of the
  initializer is null, whatever the table holds.
\<close>

lemma compile_undefined_cast:
  "compile
     (Some (var_decl ''y'' (Some (UnaryExpression (mk_token T_MINUS ''-'') (var_ref ''x''))))) c =
   Inl undefined_behaviour"
  by (simp add: compile_def var_decl_def var_ref_def declared_type_def Let_def)

text \<open>
  Whenever the lowering of a node writes an error line (undeclared identifier,
  redeclaration in the same scope, type mismatch, invalid operand kinds, unknown operator,
  unrecognized node kind), it returns with the instruction buffer empty, whatever the
  buffer held before and however deep in the node the error is; and whenever \<^verbatim>\<open>compile\<close>
  writes an error line it returns the empty program, so nothing that comes after the
  failing construct contributes an instruction. On every tree whose number literals can be
  read and whose declarations cast an identifier, \<^verbatim>\<open>compile\<close> does return.
\<close>

lemma reported_error_discards_program:
  "(compileNode n c = Inr c1 \<longrightarrow>
      (\<exists>ds. cerr c1 = cerr c @ ds \<and> (has_error ds \<longrightarrow> bytecode c1 = []))) \<and>
   (compile ast c = Inr (prog, c') \<longrightarrow>
      (\<exists>ds. cerr c' = cerr c @ ds \<and> (has_error ds \<longrightarrow> prog = []))) \<and>
   ((case ast of None \<Rightarrow> True | Some node \<Rightarrow> returning node) \<longrightarrow>
      (\<exists>prog c' ds. compile ast c = Inr (prog, c') \<and> cerr c' = cerr c @ ds \<and>
         (has_error ds \<longrightarrow> prog = [])))"
proof -
  have node: "\<exists>ds. cerr c1 = cerr c @ ds \<and> (has_error ds \<longrightarrow> bytecode c1 = [])"
    if "compileNode n c = Inr c1"
    using compileNode_lowered[OF that] by (auto simp: lowered_def grown_def failed_def)
  have whole: "\<exists>ds. cerr c' = cerr c @ ds \<and> (has_error ds \<longrightarrow> prog = [])"
    if a: "compile ast c = Inr (prog, c')" for prog c'
  proof -
    let ?c0 = "c\<lparr>bytecode := [], symbolTable := enterScope (symbolTable c)\<rparr>"
    from a obtain c1 where
      c1: "(case ast of None \<Rightarrow> Inr ?c0 | Some node \<Rightarrow> compileNode node ?c0) = Inr c1"
      by (auto simp: compile_def Let_def split: sum.splits)
    have "lowered ?c0 c1"
      using c1 by (cases ast) (auto simp: lowered_refl compileNode_lowered)
    then obtain ds where ds: "cerr c1 = cerr c @ ds" "has_error ds \<longrightarrow> bytecode c1 = []"
      by (auto simp: lowered_def grown_def failed_def)
    obtain w where w: "cerr (do_exitScope c1) = cerr c1 @ w" "\<not> has_error w"
      "bytecode (do_exitScope c1) = bytecode c1"
      by (auto simp: do_exitScope_def exitScope_def)
    from a c1 have "cerr c' = cerr (do_exitScope c1)"
      and "prog = [] \<or> bytecode (do_exitScope c1) \<noteq> []"
      by (auto simp: compile_def Let_def emit_def split: if_splits)
    with ds w show ?thesis
      by (intro exI[of _ "ds @ w"]) auto
  qed
  have total: "\<exists>prog c' ds. compile ast c = Inr (prog, c') \<and> cerr c' = cerr c @ ds \<and>
         (has_error ds \<longrightarrow> prog = [])"
    if r: "case ast of None \<Rightarrow> True | Some node \<Rightarrow> returning node"
  proof -
    from compile_returns[OF r] obtain prog c' where a: "compile ast c = Inr (prog, c')"
      by blast
    from whole[OF a] a show ?thesis by blast
  qed
  from node whole total show ?thesis by blast
qed

lemma reported_error_discards_program_example:
  "(\<exists>c1. compileNode print_undeclared (emit (BytecodeI PUSH_INT 1) Compiler_init) = Inr c1 \<and>
         has_error (cerr c1) \<and> bytecode c1 = []) \<and>
   returning nested_failure \<and>
   (\<exists>prog c'. compile (Some nested_failure) Compiler_init = Inr (prog, c') \<and>
         has_error (cerr c') \<and> prog = [])"
proof -
  let ?c = "emit (BytecodeI PUSH_INT 1) Compiler_init"
  have e0: "cerr Compiler_init = []" "cerr ?c = []"
    by (simp_all add: Compiler_init_def emit_def)
  have "case compileNode print_undeclared ?c of Inl x \<Rightarrow> False | Inr c1 \<Rightarrow> has_error (cerr c1)"
    by code_simp
  then obtain c1 where c1: "compileNode print_undeclared ?c = Inr c1" and h1: "has_error (cerr c1)"
    by (auto split: sum.splits)
  from reported_error_discards_program[where n = print_undeclared and c = ?c and ?c1.0 = c1] c1
  obtain ds where "cerr c1 = cerr ?c @ ds" "has_error ds \<longrightarrow> bytecode c1 = []"
    by blast
  with h1 e0 have b1: "bytecode c1 = []" by simp
  have r: "returning nested_failure" by code_simp
  then have r': "case Some nested_failure of None \<Rightarrow> True | Some node \<Rightarrow> returning node"
    by simp
  from reported_error_discards_program
    [where ast = "Some nested_failure" and c = Compiler_init, THEN conjunct2, THEN conjunct2,
     rule_format, OF r']
  obtain prog c' ds' where c': "compile (Some nested_failure) Compiler_init = Inr (prog, c')"
    and d': "cerr c' = cerr Compiler_init @ ds'" "has_error ds' \<longrightarrow> prog = []"
    by blast
  have "case compile (Some nested_failure) Compiler_init of
          Inl x \<Rightarrow> False | Inr (prog, c') \<Rightarrow> has_error (cerr c')"
    by code_simp
  with c' have h2: "has_error (cerr c')" by simp
  with d' e0 have "prog = []" by simp
  with c1 h1 b1 r c' h2 show ?thesis by blast
qed

text \<open>
  Claim C2. Every tree with a semantic violation, an undeclared identifier among them, is
  to compile to the empty program. The code does not do so on \<^verbatim>\<open>var y = -x;\<close> with
  \<open>x\<close> undeclared: \<^verbatim>\<open>getType\<close> of the unary initializer is that of its operand,
  \<^verbatim>\<open>IDENTIFIER_EXPRESSION\<close>, so the declaration casts the initializer to an identifier,
  gets a null pointer and dereferences it, where it should report the undeclared variable
  and return the empty program. It does exactly that on \<^verbatim>\<open>var y = x;\<close>, where the
  initializer is the identifier itself.
\<close>

theorem undeclared_initializer_null_cast:
  "compile_outcome declare_negated = Inl undefined_behaviour \<and>
   lookupSymbol ''x'' (enterScope (symbolTable Compiler_init)) = None \<and>
   compile_outcome declare_copy =
     Inr ([], [CompilerError ''Initializer is an undeclared variable''])"
  by code_simp

section \<open>Stores leave the value on the stack\<close>

lemma store_step:
  "instruction b = STORE \<Longrightarrow> stack vm = a # val # rest \<Longrightarrow> double_to_int a = Some addr \<Longrightarrow>
   0 \<le> addr \<Longrightarrow> addr < INT_MAX \<Longrightarrow>
     (\<exists>vm'. step b vm = Continue vm' \<and> stack vm' = val # rest \<and>
        nat addr < length (memory vm') \<and> memory vm' ! nat addr = val \<and>
        (\<forall>i. i \<noteq> nat addr \<and> i < length (memory vm) \<longrightarrow> memory vm' ! i = memory vm ! i) \<and>
        pc vm' = pc vm \<and> cout vm' = cout vm \<and> vm_cerr vm' = vm_cerr vm)"
  by (auto simp: step_def Let_def nth_append)

lemma assignment_shape:
  assumes "compileExpression (AssignmentExpression tok v) c = Inr c'" and "bytecode c' \<noteq> []"
  shows "\<exists>c1 symbol.
      lookupSymbol (tok_value tok) (symbolTable c) = Some symbol \<and>
      compileExpression v c = Inr c1 \<and>
      bytecode c' = bytecode c1 @ [BytecodeI PUSH_INT (address symbol), Bytecode0 STORE]"
proof -
  from assms obtain s0 where s0: "lookupSymbol (tok_value tok) (symbolTable c) = Some s0"
    by (auto simp: compile_error_def split: option.splits)
  with assms obtain c1 where c1: "compileExpression v c = Inr c1"
    by (auto split: sum.splits)
  from assms s0 c1 obtain s1 where s1: "lookupSymbol (tok_value tok) (symbolTable c1) = Some s1"
    and b: "bytecode c' = bytecode c1 @ [BytecodeI PUSH_INT (address s1), Bytecode0 STORE]"
    by (auto simp: emit_def compile_error_def Let_def
        split: sum.splits if_splits prod.splits option.splits)
  have "map_option address (lookupSymbol (tok_value tok) (symbolTable c1)) =
        map_option address (lookupSymbol (tok_value tok) (symbolTable c))"
    using compileExpression_view[OF c1] by (rule lookupSymbol_view)
  with s0 s1 have "address s1 = address s0" by simp
  with s0 c1 b show ?thesis by simp
qed

text \<open>
  Claim C3. A compiled assignment is the code of its right-hand side, a push of the
  address of the variable and \<^verbatim>\<open>STORE\<close>. \<^verbatim>\<open>STORE\<close> on a stack that holds an address above
  a value pops both, writes the value to memory at the address, growing memory when
  needed, and pushes the value again. So the assignment is an expression: the program
  \<^verbatim>\<open>var x = 1; print(x = 7);\<close> prints 7 and ends with 7 in memory at the address of \<open>x\<close>,
  which is 0.
\<close>

theorem assignment_leaves_value:
  "(compileExpression (AssignmentExpression tok e) c = Inr c' \<and> bytecode c' \<noteq> [] \<longrightarrow>
      (\<exists>c1 symbol.
         lookupSymbol (tok_value tok) (symbolTable c) = Some symbol \<and>
         compileExpression e c = Inr c1 \<and>
         bytecode c' = bytecode c1 @ [BytecodeI PUSH_INT (address symbol), Bytecode0 STORE])) \<and>
   (instruction b = STORE \<and> stack vm = a # val # rest \<and> double_to_int a = Some addr \<and>
    0 \<le> addr \<and> addr < INT_MAX \<longrightarrow>
      (\<exists>vm'. step b vm = Continue vm' \<and> stack vm' = val # rest \<and>
         nat addr < length (memory vm') \<and> memory vm' ! nat addr = val \<and>
         (\<forall>i. i \<noteq> nat addr \<and> i < length (memory vm) \<longrightarrow> memory vm' ! i = memory vm ! i) \<and>
         pc vm' = pc vm \<and> cout vm' = cout vm \<and> vm_cerr vm' = vm_cerr vm)) \<and>
   (case compile (Some assign_print) Compiler_init of
      Inl x \<Rightarrow> False
    | Inr (prog, c') \<Rightarrow>
        (case run prog (string_literals c') of
           Some (Returned v vm') \<Rightarrow>
             cout vm' = [PrintedDouble (Finite 7)] \<and> memory vm' = [Finite 7] \<and> vm_cerr vm' = []
         | _ \<Rightarrow> False))"
proof (intro conjI impI)
  assume "compileExpression (AssignmentExpression tok e) c = Inr c' \<and> bytecode c' \<noteq> []"
  then show "\<exists>c1 symbol.
         lookupSymbol (tok_value tok) (symbolTable c) = Some symbol \<and>
         compileExpression e c = Inr c1 \<and>
         bytecode c' = bytecode c1 @ [BytecodeI PUSH_INT (address symbol), Bytecode0 STORE]"
    using assignment_shape by blast
next
  assume "instruction b = STORE \<and> stack vm = a # val # rest \<and> double_to_int a = Some addr \<and>
    0 \<le> addr \<and> addr < INT_MAX"
  then show "\<exists>vm'. step b vm = Continue vm' \<and> stack vm' = val # rest \<and>
         nat addr < length (memory vm') \<and> memory vm' ! nat addr = val \<and>
         (\<forall>i. i \<noteq> nat addr \<and> i < length (memory vm) \<longrightarrow> memory vm' ! i = memory vm ! i) \<and>
         pc vm' = pc vm \<and> cout vm' = cout vm \<and> vm_cerr vm' = vm_cerr vm"
    using store_step[of b vm a val rest addr] by blast
next
  show "case compile (Some assign_print) Compiler_init of
      Inl x \<Rightarrow> False
    | Inr (prog, c') \<Rightarrow>
        (case run prog (string_literals c') of
           Some (Returned v vm') \<Rightarrow>
             cout vm' = [PrintedDouble (Finite 7)] \<and> memory vm' = [Finite 7] \<and> vm_cerr vm' = []
         | _ \<Rightarrow> False)"
    by code_simp
qed

theorem assignment_leaves_value_witness:
  "(\<exists>c c'. compileExpression (assign ''x'' (int_literal ''7'')) c = Inr c' \<and>
      bytecode c' \<noteq> [] \<and>
      bytecode c' = bytecode c @ [BytecodeI PUSH_INT 7, BytecodeI PUSH_INT 0, Bytecode0 STORE]) \<and>
   (\<exists>vm'. step (Bytecode0 STORE)
            \<lparr>stack = [Finite 0, Finite 7, Finite 1], memory = [Finite 1],
             vm_string_literals = [], pc = 6, cout = [], vm_cerr = []\<rparr> = Continue vm' \<and>
          stack vm' = [Finite 7, Finite 1] \<and> memory vm' ! 0 = Finite 7)"
proof -
  let ?tok = "mk_token T_IDENTIFIER ''x''"
  let ?e = "Literal (mk_token T_INT_LITERAL ''7'')"
  let ?c = "Compiler_init\<lparr>symbolTable :=
              fst (snd (addSymbol ''x'' INTEGER (symbolTable Compiler_init)))\<rparr>"
  have "case compileExpression (AssignmentExpression ?tok ?e) ?c of
          Inl x \<Rightarrow> False | Inr c' \<Rightarrow> bytecode c' \<noteq> []"
    by code_simp
  then obtain c' where c': "compileExpression (AssignmentExpression ?tok ?e) ?c = Inr c'"
    and ne: "bytecode c' \<noteq> []"
    by (auto split: sum.splits)
  from assignment_leaves_value
    [where tok = ?tok and e = ?e and c = ?c and c' = c', THEN conjunct1, rule_format] c' ne
  obtain c1 symbol where
    s: "lookupSymbol (tok_value ?tok) (symbolTable ?c) = Some symbol" and
    c1: "compileExpression ?e ?c = Inr c1" and
    b: "bytecode c' = bytecode c1 @ [BytecodeI PUSH_INT (address symbol), Bytecode0 STORE]"
    by blast
  have "lookupSymbol (tok_value ?tok) (symbolTable ?c) =
          Some \<lparr>name = ''x'', type = INTEGER, address = 0\<rparr>"
    by code_simp
  with s have a0: "address symbol = 0" by simp
  have "stoi ''7'' = Inr 7"
    by (simp add: stoi_def is_space_def is_digit_def digits_val_def digit_val_def
        INT_MIN_def INT_MAX_def)
  with c1 have "bytecode c1 = bytecode ?c @ [BytecodeI PUSH_INT 7]"
    by (auto simp: mk_token_def emit_def)
  with b a0 have shape:
    "bytecode c' = bytecode ?c @ [BytecodeI PUSH_INT 7, BytecodeI PUSH_INT 0, Bytecode0 STORE]"
    by simp
  let ?vm = "\<lparr>stack = [Finite 0, Finite 7, Finite 1], memory = [Finite 1],
              vm_string_literals = [], pc = 6, cout = [], vm_cerr = []\<rparr>"
  have h: "instruction (Bytecode0 STORE) = STORE \<and> stack ?vm = Finite 0 # Finite 7 # [Finite 1] \<and>
           double_to_int (Finite 0) = Some 0 \<and> (0::int) \<le> 0 \<and> 0 < INT_MAX"
    by (simp add: Bytecode0_def INT_MIN_def INT_MAX_def)
  from assignment_leaves_value
    [where b = "Bytecode0 STORE" and vm = ?vm and a = "Finite 0" and val = "Finite 7"
       and rest = "[Finite 1]" and addr = 0, THEN conjunct2, THEN conjunct1, rule_format, OF h]
  obtain vm' where "step (Bytecode0 STORE) ?vm = Continue vm'" "stack vm' = [Finite 7, Finite 1]"
    "memory vm' ! 0 = Finite 7"
    by auto
  then have second: "\<exists>vm'. step (Bytecode0 STORE) ?vm = Continue vm' \<and>
      stack vm' = [Finite 7, Finite 1] \<and> memory vm' ! 0 = Finite 7"
    by blast
  have first: "\<exists>c c'. compileExpression (assign ''x'' (int_literal ''7'')) c = Inr c' \<and>
      bytecode c' \<noteq> [] \<and>
      bytecode c' = bytecode c @ [BytecodeI PUSH_INT 7, BytecodeI PUSH_INT 0, Bytecode0 STORE]"
    unfolding assign_def int_literal_def using c' ne shape by blast
  from first second show ?thesis by (rule conjI)
qed

section \<open>Declarations with an initializer\<close>

lemma declaration_run:
  assumes p0: "0 \<le> pc vm" and p3: "pc vm + 2 < int (length prog)"
    and i0: "prog ! nat (pc vm) = BytecodeI PUSH_INT addr"
    and i1: "prog ! nat (pc vm + 1) = Bytecode0 STORE"
    and i2: "prog ! nat (pc vm + 2) = Bytecode0 HALT"
    and st: "stack vm = val # rest"
    and ad: "0 \<le> addr" "addr < INT_MAX"
  shows "\<exists>vm'. run_loop prog vm = Some (Returned val vm') \<and> stack vm' = val # rest \<and>
           memory vm' ! nat addr = val \<and> vm_cerr vm' = vm_cerr vm"
proof -
  have d: "double_to_int (int_to_double addr) = Some addr"
    using ad by (simp add: int_to_double_def INT_MIN_def INT_MAX_def)
  let ?vm1 = "vm\<lparr>pc := pc vm + 1, stack := int_to_double addr # val # rest\<rparr>"
  have s1: "run_loop prog vm = run_loop prog ?vm1"
    using p0 p3 i0 st by (subst run_loop.simps) (simp add: step_def BytecodeI_def)
  obtain mem where mem: "step (Bytecode0 STORE) (?vm1\<lparr>pc := pc vm + 2\<rparr>) =
      Continue (vm\<lparr>pc := pc vm + 2, stack := val # rest, memory := mem\<rparr>)" "mem ! nat addr = val"
    using d ad by (auto simp: step_def Bytecode0_def Let_def nth_append)
  let ?vm2 = "vm\<lparr>pc := pc vm + 2, stack := val # rest, memory := mem\<rparr>"
  have s2: "run_loop prog ?vm1 = run_loop prog ?vm2"
    using p0 p3 i1 mem(1) by (subst run_loop.simps) (simp add: add.commute)
  have s3: "run_loop prog ?vm2 = Some (Returned val (?vm2\<lparr>pc := pc vm + 3\<rparr>))"
    using p0 p3 i2 by (subst run_loop.simps) (simp add: step_def Bytecode0_def)
  show ?thesis using s1 s2 s3 mem(2) by simp
qed

lemma declaration_shape:
  assumes "compileNode (VariableDeclaration tok (Some init)) c = Inr c'" and "bytecode c' \<noteq> []"
  shows "\<exists>varType t1 c2.
      addSymbol (tok_value tok) varType (symbolTable c) = (True, t1, []) \<and>
      compileExpression init (c\<lparr>symbolTable := t1\<rparr>) = Inr c2 \<and>
      bytecode c' =
        bytecode c2 @ [BytecodeI PUSH_INT (next_address (symbolTable c)), Bytecode0 STORE]"
proof -
  from assms obtain varType where
    vt: "declared_type (Some init) (symbolTable c) = Inr (Some varType)"
    by (auto simp: compile_error_def split: sum.splits option.splits)
  obtain added t1 msgs where
    a: "addSymbol (tok_value tok) varType (symbolTable c) = (added, t1, msgs)"
    by (cases "addSymbol (tok_value tok) varType (symbolTable c)") auto
  from assms vt a have added: "added" by (auto simp: Let_def split: if_splits)
  with a have msgs: "msgs = []" by (auto simp: addSymbol_def split: if_splits)
  let ?c1 = "c\<lparr>symbolTable := t1\<rparr>"
  from assms vt a added msgs obtain c2 where c2: "compileExpression init ?c1 = Inr c2"
    by (auto simp: Let_def split: sum.splits)
  from assms vt a added msgs c2 obtain s2 where
    s2: "lookupSymbol (tok_value tok) (symbolTable c2) = Some s2" and
    b: "bytecode c' = bytecode c2 @ [BytecodeI PUSH_INT (address s2), Bytecode0 STORE]"
    by (auto simp: emit_def compile_error_def Let_def split: if_splits option.splits)
  have s1: "lookupSymbol (tok_value tok) t1 =
              Some \<lparr>name = tok_value tok, type = varType, address = next_address (symbolTable c)\<rparr>"
    using a added by (auto simp: addSymbol_def lookupSymbol_def split: if_splits)
  have "map_option address (lookupSymbol (tok_value tok) (symbolTable c2)) =
        map_option address (lookupSymbol (tok_value tok) (symbolTable ?c1))"
    using compileExpression_view[OF c2] by (rule lookupSymbol_view)
  with s1 s2 have "address s2 = next_address (symbolTable c)" by simp
  with a added msgs c2 b show ?thesis by auto
qed

text \<open>
  Claim C10. A compiled declaration with an initializer registers the symbol, and its
  code is the code of the initializer, a push of the address of the new symbol, which is
  the value of the counter before the declaration, and \<^verbatim>\<open>STORE\<close>, with no \<^verbatim>\<open>POP\<close> behind
  it. When the machine stands at that push with the value of the initializer on top of the
  stack and \<^verbatim>\<open>HALT\<close> follows the store, \<^verbatim>\<open>run\<close> returns the value of the initializer, which
  is still on the stack. The program \<^verbatim>\<open>var a = 20; var b = 4;\<close> returns 4 and leaves both
  values on the stack.
\<close>

theorem declaration_leaves_initializer_value:
  "(compileNode (VariableDeclaration tok (Some init)) c = Inr c' \<and> bytecode c' \<noteq> [] \<longrightarrow>
      (\<exists>varType t1 c2.
         addSymbol (tok_value tok) varType (symbolTable c) = (True, t1, []) \<and>
         compileExpression init (c\<lparr>symbolTable := t1\<rparr>) = Inr c2 \<and>
         bytecode c' =
           bytecode c2 @ [BytecodeI PUSH_INT (next_address (symbolTable c)), Bytecode0 STORE])) \<and>
   (0 \<le> pc vm \<and> pc vm + 2 < int (length prog) \<and>
    prog ! nat (pc vm) = BytecodeI PUSH_INT addr \<and>
    prog ! nat (pc vm + 1) = Bytecode0 STORE \<and>
    prog ! nat (pc vm + 2) = Bytecode0 HALT \<and>
    stack vm = val # rest \<and> 0 \<le> addr \<and> addr < INT_MAX \<longrightarrow>
      (\<exists>vm'. run_loop prog vm = Some (Returned val vm') \<and> stack vm' = val # rest \<and>
         memory vm' ! nat addr = val \<and> vm_cerr vm' = vm_cerr vm)) \<and>
   (case compile (Some two_declarations) Compiler_init of
      Inl x \<Rightarrow> False
    | Inr (prog, c') \<Rightarrow>
        map instruction prog = [PUSH_INT, PUSH_INT, STORE, PUSH_INT, PUSH_INT, STORE, HALT] \<and>
        (case run prog (string_literals c') of
           Some (Returned v vm') \<Rightarrow>
             v = Finite 4 \<and> stack vm' = [Finite 4, Finite 20] \<and>
             memory vm' = [Finite 20, Finite 4] \<and> vm_cerr vm' = []
         | _ \<Rightarrow> False))"
proof (intro conjI impI)
  assume "compileNode (VariableDeclaration tok (Some init)) c = Inr c' \<and> bytecode c' \<noteq> []"
  then show "\<exists>varType t1 c2.
         addSymbol (tok_value tok) varType (symbolTable c) = (True, t1, []) \<and>
         compileExpression init (c\<lparr>symbolTable := t1\<rparr>) = Inr c2 \<and>
         bytecode c' =
           bytecode c2 @ [BytecodeI PUSH_INT (next_address (symbolTable c)), Bytecode0 STORE]"
    using declaration_shape by blast
next
  assume "0 \<le> pc vm \<and> pc vm + 2 < int (length prog) \<and>
    prog ! nat (pc vm) = BytecodeI PUSH_INT addr \<and>
    prog ! nat (pc vm + 1) = Bytecode0 STORE \<and>
    prog ! nat (pc vm + 2) = Bytecode0 HALT \<and>
    stack vm = val # rest \<and> 0 \<le> addr \<and> addr < INT_MAX"
  then show "\<exists>vm'. run_loop prog vm = Some (Returned val vm') \<and> stack vm' = val # rest \<and>
         memory vm' ! nat addr = val \<and> vm_cerr vm' = vm_cerr vm"
    using declaration_run[of vm prog addr val rest] by blast
next
  show "case compile (Some two_declarations) Compiler_init of
      Inl x \<Rightarrow> False
    | Inr (prog, c') \<Rightarrow>
        map instruction prog = [PUSH_INT, PUSH_INT, STORE, PUSH_INT, PUSH_INT, STORE, HALT] \<and>
        (case run prog (string_literals c') of
           Some (Returned v vm') \<Rightarrow>
             v = Finite 4 \<and> stack vm' = [Finite 4, Finite 20] \<and>
             memory vm' = [Finite 20, Finite 4] \<and> vm_cerr vm' = []
         | _ \<Rightarrow> False)"
    by code_simp
qed

theorem declaration_leaves_initializer_value_witness:
  "(\<exists>c'. compileNode (var_decl ''b'' (Some (int_literal ''4''))) Compiler_init = Inr c' \<and>
      bytecode c' = [BytecodeI PUSH_INT 4, BytecodeI PUSH_INT 0, Bytecode0 STORE]) \<and>
   (\<exists>vm'. run_loop [BytecodeI PUSH_INT 4, BytecodeI PUSH_INT 0, Bytecode0 STORE, Bytecode0 HALT]
            \<lparr>stack = [Finite 4], memory = [], vm_string_literals = [], pc = 1, cout = [],
             vm_cerr = []\<rparr> = Some (Returned (Finite 4) vm') \<and>
          stack vm' = [Finite 4] \<and> memory vm' ! 0 = Finite 4)"
proof -
  let ?tok = "mk_token T_IDENTIFIER ''b''"
  let ?init = "Literal (mk_token T_INT_LITERAL ''4'')"
  have "case compileNode (VariableDeclaration ?tok (Some ?init)) Compiler_init of
          Inl x \<Rightarrow> False | Inr c' \<Rightarrow> bytecode c' \<noteq> []"
    by code_simp
  then obtain c' where
    c': "compileNode (VariableDeclaration ?tok (Some ?init)) Compiler_init = Inr c'" and
    ne: "bytecode c' \<noteq> []"
    by (auto split: sum.splits)
  from declaration_leaves_initializer_value
    [where tok = ?tok and init = ?init and c = Compiler_init and c' = c',
     THEN conjunct1, rule_format] c' ne
  obtain varType t1 c2 where
    c2: "compileExpression ?init (Compiler_init\<lparr>symbolTable := t1\<rparr>) = Inr c2" and
    b: "bytecode c' =
          bytecode c2 @ [BytecodeI PUSH_INT (next_address (symbolTable Compiler_init)),
                         Bytecode0 STORE]"
    by blast
  have "stoi ''4'' = Inr 4"
    by (simp add: stoi_def is_space_def is_digit_def digits_val_def digit_val_def
        INT_MIN_def INT_MAX_def)
  with c2 have "bytecode c2 = [BytecodeI PUSH_INT 4]"
    by (auto simp: mk_token_def emit_def Compiler_init_def)
  moreover have "next_address (symbolTable Compiler_init) = 0"
    by (simp add: Compiler_init_def SymbolTable_init_def enterScope_def)
  ultimately have shape:
    "bytecode c' = [BytecodeI PUSH_INT 4, BytecodeI PUSH_INT 0, Bytecode0 STORE]"
    using b by simp
  let ?prog = "[BytecodeI PUSH_INT 4, BytecodeI PUSH_INT 0, Bytecode0 STORE, Bytecode0 HALT]"
  let ?vm = "\<lparr>stack = [Finite 4], memory = [], vm_string_literals = [], pc = 1, cout = [],
              vm_cerr = []\<rparr>"
  have h: "0 \<le> pc ?vm \<and> pc ?vm + 2 < int (length ?prog) \<and>
    ?prog ! nat (pc ?vm) = BytecodeI PUSH_INT 0 \<and>
    ?prog ! nat (pc ?vm + 1) = Bytecode0 STORE \<and>
    ?prog ! nat (pc ?vm + 2) = Bytecode0 HALT \<and>
    stack ?vm = Finite 4 # [] \<and> (0::int) \<le> 0 \<and> 0 < INT_MAX"
    by (simp add: INT_MAX_def)
  from declaration_leaves_initializer_value
    [where vm = ?vm and prog = ?prog and addr = 0 and val = "Finite 4" and rest = "[]",
     THEN conjunct2, THEN conjunct1, rule_format, OF h]
  obtain vm' where "run_loop ?prog ?vm = Some (Returned (Finite 4) vm')"
    "stack vm' = [Finite 4]" "memory vm' ! 0 = Finite 4"
    by auto
  then have second: "\<exists>vm'. run_loop ?prog ?vm = Some (Returned (Finite 4) vm') \<and>
      stack vm' = [Finite 4] \<and> memory vm' ! 0 = Finite 4"
    by blast
  have first: "\<exists>c'. compileNode (var_decl ''b'' (Some (int_literal ''4''))) Compiler_init = Inr c' \<and>
      bytecode c' = [BytecodeI PUSH_INT 4, BytecodeI PUSH_INT 0, Bytecode0 STORE]"
    unfolding var_decl_def int_literal_def using c' shape by blast
  from first second show ?thesis by (rule conjI)
qed

section \<open>Arithmetic on literals\<close>

lemma digit_not_space: "is_digit ch \<Longrightarrow> \<not> is_space ch"
  by (auto simp: is_digit_def is_space_def)

lemma digit_not_sign: "is_digit ch \<Longrightarrow> ch \<noteq> CHR ''-'' \<and> ch \<noteq> CHR ''+''"
  by (auto simp: is_digit_def)

lemma stoi_digits:
  assumes ne: "s \<noteq> []" and ds: "list_all is_digit s" and le: "int (digits_val s) \<le> INT_MAX"
  shows "stoi s = Inr (int (digits_val s))"
proof -
  from ne obtain ch r where s: "s = ch # r" by (cases s) auto
  with ds have d: "is_digit ch" by simp
  have 1: "dropWhile is_space s = s" using s digit_not_space[OF d] by simp
  have 2: "takeWhile is_digit s = s" using ds by (simp add: list_all_iff)
  have 3: "INT_MIN \<le> int (digits_val s)" by (simp add: INT_MIN_def)
  show ?thesis
    using 1 2 3 le ne s digit_not_sign[OF d]
    by (simp add: stoi_def Let_def)
qed

lemma literal_compile:
  "number_literal a \<Longrightarrow>
   compileExpression (Literal a) c =
     Inr (emit \<lparr>instruction = push_of a, operand = literal_number a\<rparr> c)"
  by (auto simp: number_literal_def literal_number_def push_of_def BytecodeI_def BytecodeF_def
      stoi_digits int_to_double_def stof_def Let_def
      split: if_splits sum.splits)

lemma literal_type:
  "number_literal a \<Longrightarrow> getLiteralType a = INTEGER \<or> getLiteralType a = FLOAT"
  by (auto simp: number_literal_def getLiteralType_def split: if_splits)

lemma binary_instruction_arith:
  "is_arith opType \<Longrightarrow> (lt = INTEGER \<or> lt = FLOAT) \<Longrightarrow> (rt = INTEGER \<or> rt = FLOAT) \<Longrightarrow>
   binary_instruction opType lt rt = Inr (arith_instruction opType)"
  by (auto simp: is_arith_def binary_instruction_def arith_instruction_def)

lemma compile_literal_arith:
  assumes a: "number_literal a" and b: "number_literal b"
    and op: "is_arith (tok_type op)"
  shows "\<exists>c'. compile (Some (ExpressionNode (BinaryExpression (Literal a) op (Literal b)))) c =
     Inr ([\<lparr>instruction = push_of a, operand = literal_number a\<rparr>,
           \<lparr>instruction = push_of b, operand = literal_number b\<rparr>,
           Bytecode0 (arith_instruction (tok_type op)), Bytecode0 HALT], c')"
proof -
  have ne: "tok_type op \<noteq> T_AND" "tok_type op \<noteq> T_OR"
    using op by (auto simp: is_arith_def)
  show ?thesis
    using literal_type[OF a] literal_type[OF b] ne
    by (auto simp: compile_def operandType_def literal_compile[OF a] literal_compile[OF b]
        binary_instruction_arith[OF op] emit_def do_exitScope_def Let_def
        simp del: compileExpression.simps(1))
qed

lemma run_literal_arith:
  assumes op: "is_arith opT"
    and pa: "pa = PUSH_INT \<or> pa = PUSH_FLOAT" and pb: "pb = PUSH_INT \<or> pb = PUSH_FLOAT"
  shows "run [\<lparr>instruction = pa, operand = x\<rparr>, \<lparr>instruction = pb, operand = y\<rparr>,
              Bytecode0 (arith_instruction opT), Bytecode0 HALT] pool =
     Some (if opT = T_SLASH \<and> feq y (Finite 0)
           then Returned (Finite (- 1))
                  \<lparr>stack = [x], memory = [], vm_string_literals = pool, pc = 3, cout = [],
                   vm_cerr = [VMError ''Division by zero.'']\<rparr>
           else Returned (arith opT x y)
                  \<lparr>stack = [arith opT x y], memory = [], vm_string_literals = pool, pc = 4,
                   cout = [], vm_cerr = []\<rparr>)"
  using op pa pb
  by (auto simp: run_def VM_reset_def run_loop.simps step_def binary_op_def vm_error_def
      Bytecode0_def is_arith_def arith_instruction_def arith_def)

lemma div_fails_iff:
  "instruction b = DIV \<Longrightarrow>
     (\<exists>v vm'. step b vm = Return v vm') \<longleftrightarrow>
     (length (stack vm) < 2 \<or> feq (hd (stack vm)) (Finite 0))"
  by (auto simp: step_def vm_error_def split: list.splits)

lemma stoi_beyond_int: "stoi ''2147483648'' = Inl std_out_of_range"
  by (simp add: stoi_def is_space_def is_digit_def digits_val_def digit_val_def
      INT_MIN_def INT_MAX_def)

text \<open>
  Claim C6, as stated, at \<^verbatim>\<open>0.1 + 0.2\<close>: the compiled program returns the sum of the two
  literals rounded to single precision, \<open>40265319 / 2^27\<close>, and not the sum of the doubles
  nearest to \<open>0.1\<close> and \<open>0.2\<close>, \<open>1351079888211149 / 2^52\<close>. At \<^verbatim>\<open>2147483648 + 1\<close>
  nothing is compiled: \<^verbatim>\<open>std::stoi\<close> throws.
\<close>

theorem float_sum_not_double_sum:
  "returned_value sum_of_tenths = Some (Finite (40265319 / 134217728)) \<and>
   fadd (round_double (decimal_value ''0.1'')) (round_double (decimal_value ''0.2'')) =
     Finite (1351079888211149 / 4503599627370496) \<and>
   returned_value sum_of_tenths \<noteq>
     Some (fadd (round_double (decimal_value ''0.1'')) (round_double (decimal_value ''0.2''))) \<and>
   compile_outcome sum_beyond_int = Inl std_out_of_range"
proof -
  have 1: "returned_value sum_of_tenths = Some (Finite (40265319 / 134217728))"
    by code_simp
  have 2: "fadd (round_double (decimal_value ''0.1'')) (round_double (decimal_value ''0.2'')) =
     Finite (1351079888211149 / 4503599627370496)"
    by code_simp
  have 3: "compile_outcome sum_beyond_int = Inl std_out_of_range"
    by (simp add: compile_outcome_def sum_beyond_int_def int_literal_def mk_token_def
        compile_def operandType_def getLiteralType_def binary_instruction_def Let_def
        stoi_beyond_int)
  from 1 2 3 show ?thesis by simp
qed

text \<open>
  Claim C6, amended. For number literals \<open>a\<close> and \<open>b\<close> that the compiler reads and an
  operator among \<^verbatim>\<open>+ - * /\<close>, the expression compiles, and running the program returns
  the IEEE double result of the operator on the cells the literals stand for, the value of
  an integer literal and the value of a float literal rounded to single precision, without
  an error line; except that a division whose divisor is zero writes the error
  \<^verbatim>\<open>Division by zero\<close> and returns the sentinel \<open>-1\<close>. The \<^verbatim>\<open>DIV\<close> instruction leaves
  \<^verbatim>\<open>run\<close> exactly when the stack holds fewer than two values or the divisor on top of it
  compares equal to \<open>0.0\<close>.
\<close>

theorem arithmetic_on_stored_literals:
  "(number_literal a \<and> number_literal b \<and> is_arith (tok_type op) \<longrightarrow>
      (\<exists>prog c' vm'.
         compile (Some (ExpressionNode (BinaryExpression (Literal a) op (Literal b)))) c =
           Inr (prog, c') \<and>
         run prog (string_literals c') =
           Some (Returned
                  (if tok_type op = T_SLASH \<and> feq (literal_number b) (Finite 0) then Finite (- 1)
                   else arith (tok_type op) (literal_number a) (literal_number b)) vm') \<and>
         vm_cerr vm' = (if tok_type op = T_SLASH \<and> feq (literal_number b) (Finite 0)
                        then [VMError ''Division by zero.''] else []))) \<and>
   (instruction i = DIV \<longrightarrow>
      ((\<exists>v vm'. step i vm = Return v vm') \<longleftrightarrow>
       (length (stack vm) < 2 \<or> feq (hd (stack vm)) (Finite 0))))"
proof (intro conjI impI)
  assume h: "number_literal a \<and> number_literal b \<and> is_arith (tok_type op)"
  let ?x = "literal_number a" and ?y = "literal_number b"
  from h obtain c' where
    c': "compile (Some (ExpressionNode (BinaryExpression (Literal a) op (Literal b)))) c =
     Inr ([\<lparr>instruction = push_of a, operand = ?x\<rparr>, \<lparr>instruction = push_of b, operand = ?y\<rparr>,
           Bytecode0 (arith_instruction (tok_type op)), Bytecode0 HALT], c')"
    using compile_literal_arith[of a b op c] by blast
  have pa: "push_of a = PUSH_INT \<or> push_of a = PUSH_FLOAT"
    and pb: "push_of b = PUSH_INT \<or> push_of b = PUSH_FLOAT"
    by (simp_all add: push_of_def)
  from h have op: "is_arith (tok_type op)" by simp
  show "\<exists>prog c' vm'.
         compile (Some (ExpressionNode (BinaryExpression (Literal a) op (Literal b)))) c =
           Inr (prog, c') \<and>
         run prog (string_literals c') =
           Some (Returned
                  (if tok_type op = T_SLASH \<and> feq ?y (Finite 0) then Finite (- 1)
                   else arith (tok_type op) ?x ?y) vm') \<and>
         vm_cerr vm' = (if tok_type op = T_SLASH \<and> feq ?y (Finite 0)
                        then [VMError ''Division by zero.''] else [])"
    using c' run_literal_arith[OF op pa pb, of ?x ?y "string_literals c'"]
    by (cases "tok_type op = T_SLASH \<and> feq ?y (Finite 0)") auto
next
  assume "instruction i = DIV"
  then show "(\<exists>v vm'. step i vm = Return v vm') \<longleftrightarrow>
       (length (stack vm) < 2 \<or> feq (hd (stack vm)) (Finite 0))"
    by (rule div_fails_iff)
qed

theorem arithmetic_on_stored_literals_witness:
  "(\<exists>prog c' vm'.
      compile (Some (ExpressionNode
        (BinaryExpression (int_literal ''20'') (mk_token T_SLASH ''/'') (int_literal ''4''))))
        Compiler_init = Inr (prog, c') \<and>
      run prog (string_literals c') = Some (Returned (Finite 5) vm') \<and> vm_cerr vm' = []) \<and>
   (\<exists>prog c' vm'.
      compile (Some (ExpressionNode
        (BinaryExpression (int_literal ''1'') (mk_token T_SLASH ''/'') (int_literal ''0''))))
        Compiler_init = Inr (prog, c') \<and>
      run prog (string_literals c') = Some (Returned (Finite (- 1)) vm') \<and>
      vm_cerr vm' = [VMError ''Division by zero.'']) \<and>
   (\<exists>prog c' vm'.
      compile (Some sum_of_tenths) Compiler_init = Inr (prog, c') \<and>
      run prog (string_literals c') = Some (Returned (Finite (40265319 / 134217728)) vm') \<and>
      vm_cerr vm' = []) \<and>
   (\<exists>v vm'. step (Bytecode0 DIV)
      \<lparr>stack = [Finite 0, Finite 1], memory = [], vm_string_literals = [], pc = 3, cout = [],
       vm_cerr = []\<rparr> = Return v vm')"
proof -
  let ?op = "mk_token T_SLASH ''/''"
  let ?plus = "mk_token T_PLUS ''+''"
  let ?t20 = "mk_token T_INT_LITERAL ''20''"
  let ?t4 = "mk_token T_INT_LITERAL ''4''"
  let ?t1 = "mk_token T_INT_LITERAL ''1''"
  let ?t0 = "mk_token T_INT_LITERAL ''0''"
  let ?f1 = "mk_token T_FLOAT_LITERAL ''0.1''"
  let ?f2 = "mk_token T_FLOAT_LITERAL ''0.2''"
  have n: "number_literal ?t20" "number_literal ?t4" "number_literal ?t1" "number_literal ?t0"
    by code_simp+
  have nf: "number_literal ?f1" "number_literal ?f2"
    by code_simp+
  have v: "literal_number ?t20 = Finite 20" "literal_number ?t4 = Finite 4"
    "literal_number ?t1 = Finite 1" "literal_number ?t0 = Finite 0"
    by code_simp+
  have op: "is_arith (tok_type ?op)" "tok_type ?op = T_SLASH"
    "is_arith (tok_type ?plus)" "tok_type ?plus \<noteq> T_SLASH"
    by (simp_all add: is_arith_def mk_token_def)
  have q: "arith T_SLASH (Finite 20) (Finite 4) = Finite 5" by code_simp
  have s: "arith (tok_type ?plus) (literal_number ?f1) (literal_number ?f2) =
           Finite (40265319 / 134217728)"
    by code_simp
  have z: "feq (Finite 0) (Finite 0)" "\<not> feq (Finite 4) (Finite 0)"
    by (simp_all add: feq_def)
  have h1: "number_literal ?t20 \<and> number_literal ?t4 \<and> is_arith (tok_type ?op)"
    using n op by simp
  have h2: "number_literal ?t1 \<and> number_literal ?t0 \<and> is_arith (tok_type ?op)"
    using n op by simp
  have h4: "number_literal ?f1 \<and> number_literal ?f2 \<and> is_arith (tok_type ?plus)"
    using nf op by simp
  from arithmetic_on_stored_literals
    [where a = ?t20 and b = ?t4 and op = ?op and c = Compiler_init,
     THEN conjunct1, rule_format, OF h1]
  have g1: "\<exists>prog c' vm'.
      compile (Some (ExpressionNode (BinaryExpression (Literal ?t20) ?op (Literal ?t4))))
        Compiler_init = Inr (prog, c') \<and>
      run prog (string_literals c') = Some (Returned (Finite 5) vm') \<and> vm_cerr vm' = []"
    using op q z v by simp
  from arithmetic_on_stored_literals
    [where a = ?t1 and b = ?t0 and op = ?op and c = Compiler_init,
     THEN conjunct1, rule_format, OF h2]
  have g2: "\<exists>prog c' vm'.
      compile (Some (ExpressionNode (BinaryExpression (Literal ?t1) ?op (Literal ?t0))))
        Compiler_init = Inr (prog, c') \<and>
      run prog (string_literals c') = Some (Returned (Finite (- 1)) vm') \<and>
      vm_cerr vm' = [VMError ''Division by zero.'']"
    using op z v by simp
  from arithmetic_on_stored_literals
    [where a = ?f1 and b = ?f2 and op = ?plus and c = Compiler_init,
     THEN conjunct1, rule_format, OF h4]
  have g4: "\<exists>prog c' vm'.
      compile (Some (ExpressionNode (BinaryExpression (Literal ?f1) ?plus (Literal ?f2))))
        Compiler_init = Inr (prog, c') \<and>
      run prog (string_literals c') = Some (Returned (Finite (40265319 / 134217728)) vm') \<and>
      vm_cerr vm' = []"
    using op(4) s by simp
  let ?vm = "\<lparr>stack = [Finite 0, Finite 1], memory = [], vm_string_literals = [], pc = 3,
              cout = [], vm_cerr = []\<rparr>"
  have h3: "instruction (Bytecode0 DIV) = DIV" by (simp add: Bytecode0_def)
  from arithmetic_on_stored_literals
    [where i = "Bytecode0 DIV" and vm = ?vm, THEN conjunct2, rule_format, OF h3]
  have g3: "\<exists>v vm'. step (Bytecode0 DIV) ?vm = Return v vm'"
    using z by simp
  from g1 g2 g4 g3 show ?thesis
    unfolding int_literal_def float_literal_def sum_of_tenths_def by blast
qed

section \<open>Print statements\<close>

lemma print_shape:
  "compileNode (PrintStatement expr) c = Inr c' \<Longrightarrow> bytecode c' \<noteq> [] \<Longrightarrow>
     (\<exists>c1. compileExpression expr c = Inr c1 \<and>
        bytecode c' = bytecode c1 @
          [Bytecode0 (if fst (resolveExpressionType expr (symbolTable c1)) = STRING_LITERAL
                      then PRINT_STRING else PRINT_VALUE)])"
  by (auto simp: emit_def Let_def split: sum.splits if_splits prod.splits)

lemma print_value_step:
  "instruction b = PRINT_VALUE \<Longrightarrow> stack vm = val # rest \<Longrightarrow>
     step b vm = Continue (vm\<lparr>stack := rest, cout := cout vm @
        [if feq val (Finite 0) then PrintedLine ''false''
         else if feq val (Finite 1) then PrintedLine ''true''
         else PrintedDouble val]\<rparr>)"
  by (simp add: step_def)

text \<open>
  Claim C7. The code of a compiled print statement is the code of its expression followed
  by \<^verbatim>\<open>PRINT_STRING\<close> when \<^verbatim>\<open>resolveExpressionType\<close> gives the string type for the
  expression, and by \<^verbatim>\<open>PRINT_VALUE\<close> otherwise. \<^verbatim>\<open>PRINT_VALUE\<close> pops the value and writes
  it in its numeric form, except that a value equal to 0 is written as \<^verbatim>\<open>false\<close> and a
  value equal to 1 as \<^verbatim>\<open>true\<close>.
\<close>

theorem print_selects_instruction:
  "(compileNode (PrintStatement expr) c = Inr c' \<and> bytecode c' \<noteq> [] \<longrightarrow>
      (\<exists>c1. compileExpression expr c = Inr c1 \<and>
         bytecode c' = bytecode c1 @
           [Bytecode0 (if fst (resolveExpressionType expr (symbolTable c1)) = STRING_LITERAL
                       then PRINT_STRING else PRINT_VALUE)])) \<and>
   (instruction b = PRINT_VALUE \<and> stack vm = val # rest \<longrightarrow>
      step b vm = Continue (vm\<lparr>stack := rest, cout := cout vm @
        [if feq val (Finite 0) then PrintedLine ''false''
         else if feq val (Finite 1) then PrintedLine ''true''
         else PrintedDouble val]\<rparr>))"
  using print_shape[of expr c c'] print_value_step[of b vm val rest] by blast

theorem print_selects_instruction_witness:
  "(\<exists>c'. compileNode (PrintStatement (int_literal ''7'')) Compiler_init = Inr c' \<and>
      bytecode c' = [BytecodeI PUSH_INT 7, Bytecode0 PRINT_VALUE]) \<and>
   (\<exists>c'. compileNode (PrintStatement (Literal (mk_token T_STRING_LITERAL ''hi''))) Compiler_init =
            Inr c' \<and>
      bytecode c' = [BytecodeI PUSH_STRING 0, Bytecode0 PRINT_STRING]) \<and>
   step (Bytecode0 PRINT_VALUE)
     \<lparr>stack = [Finite 7], memory = [], vm_string_literals = [], pc = 2, cout = [],
      vm_cerr = []\<rparr> =
     Continue \<lparr>stack = [], memory = [], vm_string_literals = [], pc = 2,
               cout = [PrintedDouble (Finite 7)], vm_cerr = []\<rparr> \<and>
   step (Bytecode0 PRINT_VALUE)
     \<lparr>stack = [Finite 1], memory = [], vm_string_literals = [], pc = 2, cout = [],
      vm_cerr = []\<rparr> =
     Continue \<lparr>stack = [], memory = [], vm_string_literals = [], pc = 2,
               cout = [PrintedLine ''true''], vm_cerr = []\<rparr>"
proof -
  let ?e7 = "Literal (mk_token T_INT_LITERAL ''7'')"
  let ?es = "Literal (mk_token T_STRING_LITERAL ''hi'')"
  have "case compileNode (PrintStatement ?e7) Compiler_init of
          Inl x \<Rightarrow> False | Inr c' \<Rightarrow> bytecode c' \<noteq> []"
    by code_simp
  then obtain c7 where c7: "compileNode (PrintStatement ?e7) Compiler_init = Inr c7"
    and ne7: "bytecode c7 \<noteq> []"
    by (auto split: sum.splits)
  have "case compileNode (PrintStatement ?es) Compiler_init of
          Inl x \<Rightarrow> False | Inr c' \<Rightarrow> bytecode c' \<noteq> []"
    by code_simp
  then obtain cs where cs: "compileNode (PrintStatement ?es) Compiler_init = Inr cs"
    and nes: "bytecode cs \<noteq> []"
    by (auto split: sum.splits)
  have s7: "stoi ''7'' = Inr 7"
    by (simp add: stoi_def is_space_def is_digit_def digits_val_def digit_val_def
        INT_MIN_def INT_MAX_def)
  from print_selects_instruction
    [where expr = ?e7 and c = Compiler_init and c' = c7, THEN conjunct1, rule_format] c7 ne7
  obtain c1 where "compileExpression ?e7 Compiler_init = Inr c1"
    "bytecode c7 = bytecode c1 @
       [Bytecode0 (if fst (resolveExpressionType ?e7 (symbolTable c1)) = STRING_LITERAL
                   then PRINT_STRING else PRINT_VALUE)]"
    by blast
  then have b7: "bytecode c7 = [BytecodeI PUSH_INT 7, Bytecode0 PRINT_VALUE]"
    using s7 by (auto simp: mk_token_def emit_def Compiler_init_def)
  from print_selects_instruction
    [where expr = ?es and c = Compiler_init and c' = cs, THEN conjunct1, rule_format] cs nes
  obtain c2 where "compileExpression ?es Compiler_init = Inr c2"
    "bytecode cs = bytecode c2 @
       [Bytecode0 (if fst (resolveExpressionType ?es (symbolTable c2)) = STRING_LITERAL
                   then PRINT_STRING else PRINT_VALUE)]"
    by blast
  then have bs: "bytecode cs = [BytecodeI PUSH_STRING 0, Bytecode0 PRINT_STRING]"
    by (auto simp: mk_token_def emit_def Compiler_init_def)
  let ?vm7 = "\<lparr>stack = [Finite 7], memory = [], vm_string_literals = [], pc = 2, cout = [],
               vm_cerr = []\<rparr>"
  let ?vm1 = "\<lparr>stack = [Finite 1], memory = [], vm_string_literals = [], pc = 2, cout = [],
               vm_cerr = []\<rparr>"
  have h7: "instruction (Bytecode0 PRINT_VALUE) = PRINT_VALUE \<and> stack ?vm7 = Finite 7 # []"
    and h1: "instruction (Bytecode0 PRINT_VALUE) = PRINT_VALUE \<and> stack ?vm1 = Finite 1 # []"
    by (simp_all add: Bytecode0_def)
  from print_selects_instruction
    [where b = "Bytecode0 PRINT_VALUE" and vm = ?vm7 and val = "Finite 7" and rest = "[]",
     THEN conjunct2, rule_format, OF h7]
  have p7: "step (Bytecode0 PRINT_VALUE) ?vm7 =
     Continue \<lparr>stack = [], memory = [], vm_string_literals = [], pc = 2,
               cout = [PrintedDouble (Finite 7)], vm_cerr = []\<rparr>"
    by (simp add: feq_def)
  from print_selects_instruction
    [where b = "Bytecode0 PRINT_VALUE" and vm = ?vm1 and val = "Finite 1" and rest = "[]",
     THEN conjunct2, rule_format, OF h1]
  have p1: "step (Bytecode0 PRINT_VALUE) ?vm1 =
     Continue \<lparr>stack = [], memory = [], vm_string_literals = [], pc = 2,
               cout = [PrintedLine ''true''], vm_cerr = []\<rparr>"
    by (simp add: feq_def)
  from c7 b7 cs bs p7 p1 show ?thesis
    unfolding int_literal_def by blast
qed

section \<open>Float literals are read at single precision\<close>

lemma float_literal_operand:
  "tok_type token = T_FLOAT_LITERAL \<Longrightarrow> compileExpression (Literal token) c = Inr c' \<Longrightarrow>
     bytecode c' = bytecode c @
       [\<lparr>instruction = PUSH_FLOAT, operand = round_float (decimal_value (tok_value token))\<rparr>]"
  by (auto simp: stof_def emit_def BytecodeF_def float_to_double_def Let_def
      split: if_splits sum.splits)

text \<open>
  Claim C8, as stated, fails: the operand of the \<^verbatim>\<open>PUSH_FLOAT\<close> compiled for the literal
  \<^verbatim>\<open>0.1\<close> is the nearest \<^verbatim>\<open>float\<close> to one tenth, \<open>13421773 / 2^27\<close>, and not the nearest
  \<^verbatim>\<open>double\<close>, \<open>3602879701896397 / 2^55\<close>.
\<close>

theorem float_literal_not_double_precision:
  "operands_of (Literal (mk_token T_FLOAT_LITERAL ''0.1'')) = [Finite (13421773 / 134217728)] \<and>
   round_double (decimal_value ''0.1'') = Finite (3602879701896397 / 36028797018963968) \<and>
   operands_of (Literal (mk_token T_FLOAT_LITERAL ''0.1'')) \<noteq>
     [round_double (decimal_value ''0.1'')]"
proof -
  have a: "operands_of (Literal (mk_token T_FLOAT_LITERAL ''0.1'')) =
             [Finite (13421773 / 134217728)]"
    by code_simp
  have b: "round_double (decimal_value ''0.1'') =
             Finite (3602879701896397 / 36028797018963968)"
    by code_simp
  show ?thesis using a b by simp
qed

text \<open>
  Claim C8, amended. For every float literal that \<^verbatim>\<open>std::stof\<close> reads, the operand of its
  \<^verbatim>\<open>PUSH_FLOAT\<close> instruction is the value of the literal rounded to the nearest \<^verbatim>\<open>float\<close>
  (single precision); the conversion of that \<^verbatim>\<open>float\<close> to the \<^verbatim>\<open>double\<close> operand loses
  nothing.
\<close>

theorem float_literal_single_precision:
  "tok_type token = T_FLOAT_LITERAL \<and> compileExpression (Literal token) c = Inr c' \<longrightarrow>
     bytecode c' = bytecode c @
       [\<lparr>instruction = PUSH_FLOAT, operand = round_float (decimal_value (tok_value token))\<rparr>]"
  using float_literal_operand by blast

theorem float_literal_single_precision_witness:
  "\<exists>c'. compileExpression (Literal (mk_token T_FLOAT_LITERAL ''2.5'')) Compiler_init = Inr c' \<and>
        bytecode c' = [\<lparr>instruction = PUSH_FLOAT, operand = Finite (5 / 2)\<rparr>]"
proof -
  let ?tok = "mk_token T_FLOAT_LITERAL ''2.5''"
  have "case compileExpression (Literal ?tok) Compiler_init of Inl x \<Rightarrow> False | Inr c' \<Rightarrow> True"
    by code_simp
  then obtain c' where c': "compileExpression (Literal ?tok) Compiler_init = Inr c'"
    by (auto split: sum.splits)
  have t: "tok_type ?tok = T_FLOAT_LITERAL \<and> compileExpression (Literal ?tok) Compiler_init = Inr c'"
    using c' by (simp add: mk_token_def)
  have r: "round_float (decimal_value (tok_value ?tok)) = Finite (5 / 2)"
    by code_simp
  from float_literal_single_precision[where token = ?tok and c = Compiler_init and c' = c',
      rule_format, OF t]
  have "bytecode c' = [\<lparr>instruction = PUSH_FLOAT, operand = Finite (5 / 2)\<rparr>]"
    using r by (simp add: Compiler_init_def)
  with c' show ?thesis by blast
qed

end
